theory Spec2Isabelle
  imports Main "HOL-Library.Multiset"
begin

section \<open>JavaScript values\<close>

text \<open>
  The scraper handles JSON documents (the search API's answers, the saved progress) and
  objects built from page markup. A value is one of JavaScript's: \<open>undefined\<close> (what reading
  a missing property gives), \<open>null\<close>, a boolean, a number, a string, an array or an object.
  An object is the list of its own properties in insertion order; the first entry of a key
  is the one read. Numbers are the integers (every number the scraper computes with is a
  post number, a page number or an epoch time; fractions, infinities and integers beyond
  the exactly representable range \<open>2^53\<close> are not modelled, and \<open>NaN\<close> is written as
  \<open>None\<close> of an \<open>int option\<close> where the code can produce it). Strings are lists of
  characters with codes below 256.
\<close>

datatype jsval =
    Undefined
  | Null
  | Bool bool
  | Num int
  | Str string
  | Arr "jsval list"
  | Obj "(string \<times> jsval) list"

text \<open>What the source can throw and the retry loop or the caller can catch.\<close>

datatype error =
    TypeError
  | RangeError
  | SyntaxError
  | HttpError nat
  | NetworkError

text \<open>Truthiness, as \<open>if (v)\<close>, \<open>!v\<close>, \<open>a || b\<close> and \<open>c ? x : y\<close> test it.\<close>

fun truthy :: "jsval \<Rightarrow> bool" where
  "truthy Undefined = False"
| "truthy Null = False"
| "truthy (Bool b) = b"
| "truthy (Num n) = (n \<noteq> 0)"
| "truthy (Str s) = (s \<noteq> [])"
| "truthy (Arr xs) = True"
| "truthy (Obj kvs) = True"

text \<open>\<open>a || b\<close> on two values already evaluated (the operands here have no effects).\<close>

definition js_or :: "jsval \<Rightarrow> jsval \<Rightarrow> jsval" where
  "js_or a b = (if truthy a then a else b)"

text \<open>
  Reading a property \<open>v.k\<close> (or \<open>v[k]\<close>) of a value that is neither \<open>null\<close> nor
  \<open>undefined\<close>. Only the own properties of objects, and the length and the elements of
  arrays and strings, are modelled: none of the property names the scraper reads
  (\<open>posts\<close>, \<open>error\<close>, \<open>shortname\<close>, \<open>media_link\<close>, ...) is a property of a built-in
  prototype.
\<close>

function digit_chars :: "int \<Rightarrow> string" where
  "digit_chars n =
     (if n < 10 then [char_of (48 + n)]
      else digit_chars (n div 10) @ [char_of (48 + n mod 10)])"
  by pat_completeness auto
termination
  by (relation "measure nat") auto

declare digit_chars.simps [simp del]

definition show_int :: "int \<Rightarrow> string" where
  "show_int i = (if i < 0 then CHR ''-'' # digit_chars (- i) else digit_chars i)"

definition is_digit :: "char \<Rightarrow> bool" where
  "is_digit c = (48 \<le> (of_char c :: int) \<and> (of_char c :: int) \<le> 57)"

definition digits_value :: "string \<Rightarrow> int" where
  "digits_value ds = foldl (\<lambda>acc c. 10 * acc + ((of_char c :: int) - 48)) 0 ds"

text \<open>
  An array index as a property key: the canonical decimal form of a number below
  \<open>2^32 - 1\<close> (no sign, no leading zero).
\<close>

definition array_index :: "string \<Rightarrow> int option" where
  "array_index k =
     (if k \<noteq> [] \<and> list_all is_digit k \<and> (hd k \<noteq> CHR ''0'' \<or> length k = 1)
         \<and> digits_value k < 4294967295
      then Some (digits_value k) else None)"

fun lookup :: "(string \<times> jsval) list \<Rightarrow> string \<Rightarrow> jsval" where
  "lookup [] k = Undefined"
| "lookup ((k', v) # kvs) k = (if k' = k then v else lookup kvs k)"

fun read_prop :: "jsval \<Rightarrow> string \<Rightarrow> jsval" where
  "read_prop (Obj kvs) k = lookup kvs k"
| "read_prop (Arr xs) k =
     (if k = ''length'' then Num (int (length xs))
      else (case array_index k of
              Some i \<Rightarrow> (if i < int (length xs) then xs ! nat i else Undefined)
            | None \<Rightarrow> Undefined))"
| "read_prop (Str s) k =
     (if k = ''length'' then Num (int (length s))
      else (case array_index k of
              Some i \<Rightarrow> (if i < int (length s) then Str [s ! nat i] else Undefined)
            | None \<Rightarrow> Undefined))"
| "read_prop v k = Undefined"

text \<open>\<open>v.k\<close> in full: a TypeError on \<open>null\<close> and \<open>undefined\<close>.\<close>

definition get_prop :: "jsval \<Rightarrow> string \<Rightarrow> error + jsval" where
  "get_prop v k = (if v = Null \<or> v = Undefined then Inl TypeError else Inr (read_prop v k))"

text \<open>\<open>v?.k\<close>: \<open>undefined\<close> instead of the TypeError.\<close>

definition opt_prop :: "jsval \<Rightarrow> string \<Rightarrow> jsval" where
  "opt_prop v k = (if v = Null \<or> v = Undefined then Undefined else read_prop v k)"

text \<open>
  ToString, which \<open>parseInt\<close>, property keys and \<open>innerHTML\<close> apply to a value that is
  not a string. An array joins its elements with commas, \<open>null\<close> and \<open>undefined\<close>
  elements printing as nothing.
\<close>

fun join :: "string list \<Rightarrow> string" where
  "join [] = []"
| "join [s] = s"
| "join (s # t # ss) = s @ CHR '','' # join (t # ss)"

fun to_string :: "jsval \<Rightarrow> string" where
  "to_string Undefined = ''undefined''"
| "to_string Null = ''null''"
| "to_string (Bool b) = (if b then ''true'' else ''false'')"
| "to_string (Num n) = show_int n"
| "to_string (Str s) = s"
| "to_string (Arr xs) =
     join (map (\<lambda>x. if x = Null \<or> x = Undefined then [] else to_string x) xs)"
| "to_string (Obj kvs) = ''[object Object]''"

text \<open>
  \<open>parseInt(s, 10)\<close>: leading white space is skipped, then an optional sign, then the
  longest run of decimal digits; no digit at all gives \<open>NaN\<close> (\<open>None\<close>). White space
  (here, for \<open>trim\<close> and for \<open>\s\<close>) is tab, line feed, vertical tab, form feed, carriage
  return, space and no-break space.
\<close>

definition is_ws :: "char \<Rightarrow> bool" where
  "is_ws c = ((of_char c :: int) \<in> {9, 10, 11, 12, 13, 32, 160})"

definition parseInt :: "string \<Rightarrow> int option" where
  "parseInt s =
     (let s1 = dropWhile is_ws s;
          neg = (s1 \<noteq> [] \<and> hd s1 = CHR ''-'');
          s2 = (if s1 \<noteq> [] \<and> (hd s1 = CHR ''-'' \<or> hd s1 = CHR ''+'') then tl s1 else s1);
          ds = takeWhile is_digit s2
      in if ds = [] then None
         else Some (if neg then - digits_value ds else digits_value ds))"

section \<open>Dates\<close>

text \<open>
  \<open>new Date(ms).toISOString()\<close>. A time value is valid within 8.64e15 milliseconds of
  the epoch; \<open>toISOString\<close> throws a RangeError on an invalid date. The calendar date is
  computed from the day number in the proleptic Gregorian calendar; years outside
  0..9999 print with a sign and six digits.
\<close>

definition pad :: "nat \<Rightarrow> int \<Rightarrow> string" where
  "pad w n = replicate (w - length (digit_chars n)) CHR ''0'' @ digit_chars n"

definition civil_from_days :: "int \<Rightarrow> int \<times> int \<times> int" where
  "civil_from_days z0 =
     (let z = z0 + 719468;
          era = z div 146097;
          doe = z mod 146097;
          yoe = (doe - doe div 1460 + doe div 36524 - doe div 146096) div 365;
          doy = doe - (365 * yoe + yoe div 4 - yoe div 100);
          mp = (5 * doy + 2) div 153;
          d = doy - (153 * mp + 2) div 5 + 1;
          m = (if mp < 10 then mp + 3 else mp - 9);
          y = yoe + era * 400 + (if m \<le> 2 then 1 else 0)
      in (y, m, d))"

definition show_year :: "int \<Rightarrow> string" where
  "show_year y =
     (if 0 \<le> y \<and> y \<le> 9999 then pad 4 y
      else (if y < 0 then CHR ''-'' else CHR ''+'') # pad 6 \<bar>y\<bar>)"

definition toISOString :: "int option \<Rightarrow> error + string" where
  "toISOString t =
     (case t of
        None \<Rightarrow> Inl RangeError
      | Some ms \<Rightarrow>
          if \<bar>ms\<bar> > 8640000000000000 then Inl RangeError
          else
            (let (y, m, d) = civil_from_days (ms div 86400000);
                 r = ms mod 86400000
             in Inr (show_year y @ ''-'' @ pad 2 m @ ''-'' @ pad 2 d @ ''T''
                     @ pad 2 (r div 3600000) @ '':'' @ pad 2 (r div 60000 mod 60) @ '':''
                     @ pad 2 (r div 1000 mod 60) @ ''.'' @ pad 3 (r mod 1000) @ ''Z'')))"

section \<open>Normalizer\<close>

text \<open>
  The canonical post, as the object literal of \<open>normalizePosts\<close> builds it: every field is
  written unconditionally. \<open>timestamp\<close> and \<open>date_iso\<close> are \<open>None\<close> for \<open>null\<close>; the
  three flags are JavaScript booleans and \<open>text\<close> is always a string. (\<open>text'\<close> and
  \<open>tripcode'\<close> are the fields \<open>text\<close> and \<open>tripcode\<close>.)
\<close>

record post =
  post_id :: jsval
  thread_id :: jsval
  board :: jsval
  is_op :: bool
  timestamp :: "int option"
  date_human :: jsval
  date_iso :: "string option"
  name :: jsval
  tripcode' :: jsval
  poster_id :: jsval
  country :: jsval
  subject :: jsval
  text' :: string
  text_html :: jsval
  has_media :: bool
  media_filename :: jsval
  media_url :: jsval
  thumb_url :: jsval
  deleted :: bool

text \<open>\<open>text.replace(/\s+/g, ' ').trim()\<close> on a string.\<close>

function collapse_ws :: "string \<Rightarrow> string" where
  "collapse_ws [] = []"
| "collapse_ws (c # cs) =
     (if is_ws c then CHR '' '' # collapse_ws (dropWhile is_ws cs) else c # collapse_ws cs)"
  by pat_completeness auto
termination
  by (relation "measure length") (auto simp: length_dropWhile_le le_imp_less_Suc)

definition trim :: "string \<Rightarrow> string" where
  "trim s = rev (dropWhile is_ws (rev (dropWhile is_ws s)))"

text \<open>
  The text of a post. \<open>post.comment_sanitized || post.comment || ''\<close> picks the value;
  \<open>text.includes('<')\<close> exists on strings and on arrays only (anything else that is
  truthy throws a TypeError there). When a tag may be present the text goes through the
  browser: \<open>dom_text\<close> is the page's parser, \<open>tmp.innerHTML = text\<close> followed by
  \<open>tmp.textContent || tmp.innerText || ''\<close>; it is a parameter of the model. An array
  reaches \<open>text.replace\<close> as a string only when it went through the browser.
\<close>

definition pick_text :: "jsval \<Rightarrow> jsval" where
  "pick_text p = js_or (js_or (read_prop p ''comment_sanitized'') (read_prop p ''comment'')) (Str [])"

definition strip_tags :: "(string \<Rightarrow> string) \<Rightarrow> jsval \<Rightarrow> error + string" where
  "strip_tags dom_text t =
     (case t of
        Str s \<Rightarrow> Inr (if CHR ''<'' \<in> set s then dom_text s else s)
      | Arr xs \<Rightarrow> (if Str ''<'' \<in> set xs then Inr (dom_text (to_string t)) else Inl TypeError)
      | _ \<Rightarrow> Inl TypeError)"

text \<open>
  \<open>timestamp\<close> and \<open>date_iso\<close>, both guarded by \<open>post.timestamp ? ... : null\<close>. When
  \<open>parseInt\<close> gives \<open>NaN\<close> the date is invalid and \<open>toISOString\<close> throws.
\<close>

definition convert_timestamp :: "jsval \<Rightarrow> error + (int option \<times> string option)" where
  "convert_timestamp ts =
     (if truthy ts then
        (case parseInt (to_string ts) of
           None \<Rightarrow> Inl RangeError
         | Some n \<Rightarrow>
             (case toISOString (Some (n * 1000)) of
                Inl e \<Rightarrow> Inl e
              | Inr s \<Rightarrow> Inr (Some n, Some s)))
      else Inr (None, None))"

definition normalizePost :: "(string \<Rightarrow> string) \<Rightarrow> jsval \<Rightarrow> error + post" where
  "normalizePost dom_text p =
     (if p = Null \<or> p = Undefined then Inl TypeError
      else
        (case strip_tags dom_text (pick_text p) of
           Inl e \<Rightarrow> Inl e
         | Inr t \<Rightarrow>
             (case convert_timestamp (read_prop p ''timestamp'') of
                Inl e \<Rightarrow> Inl e
              | Inr (ts, ds) \<Rightarrow>
                  Inr \<lparr> post_id = js_or (read_prop p ''num'') Null,
                        thread_id = js_or (read_prop p ''thread_num'') Null,
                        board = js_or (js_or (opt_prop (read_prop p ''board'') ''shortname'')
                                             (read_prop p ''board'')) Null,
                        is_op = (read_prop p ''op'' = Str ''1'' \<or> read_prop p ''op'' = Num 1),
                        timestamp = ts,
                        date_human = js_or (read_prop p ''fourchan_date'') Null,
                        date_iso = ds,
                        name = js_or (read_prop p ''name'') Null,
                        tripcode' = js_or (read_prop p ''trip'') Null,
                        poster_id = js_or (read_prop p ''poster_hash'') Null,
                        country = js_or (read_prop p ''poster_country'') Null,
                        subject = js_or (read_prop p ''title'') Null,
                        text' = trim (collapse_ws t),
                        text_html = js_or (js_or (read_prop p ''comment_processed'')
                                                 (read_prop p ''comment_html'')) Null,
                        has_media = truthy (js_or (read_prop p ''media'') (read_prop p ''media_url'')),
                        media_filename =
                          js_or (js_or (opt_prop (read_prop p ''media'') ''media_filename'')
                                       (read_prop p ''media_filename'')) Null,
                        media_url =
                          js_or (js_or (opt_prop (read_prop p ''media'') ''media_link'')
                                       (read_prop p ''media_url'')) Null,
                        thumb_url =
                          js_or (js_or (opt_prop (read_prop p ''media'') ''thumb_link'')
                                       (read_prop p ''thumb_url'')) Null,
                        deleted = (read_prop p ''deleted'' = Str ''1'' \<or> read_prop p ''deleted'' = Num 1) \<rparr>)))"

text \<open>\<open>posts.map(...)\<close>: the first post that throws ends the whole call.\<close>

fun normalizePosts :: "(string \<Rightarrow> string) \<Rightarrow> jsval list \<Rightarrow> error + post list" where
  "normalizePosts dom_text [] = Inr []"
| "normalizePosts dom_text (p # ps) =
     (case normalizePost dom_text p of
        Inl e \<Rightarrow> Inl e
      | Inr r \<Rightarrow>
          (case normalizePosts dom_text ps of
             Inl e \<Rightarrow> Inl e
           | Inr rs \<Rightarrow> Inr (r # rs)))"

section \<open>Thread grouper\<close>

record thread =
  thread_id' :: jsval
  board' :: jsval
  posts' :: "post list"

text \<open>
  \<open>threads\<close> is a plain object used as a dictionary: the list of its own properties in
  creation order. The key of a post is \<open>post.thread_id || 'unknown'\<close> converted to a
  property key. Reading \<open>threads[tid]\<close> also sees what every object inherits: for the
  names below the inherited value is truthy, no thread is created, and
  \<open>threads[tid].posts.push\<close> throws a TypeError because the inherited value has no
  \<open>posts\<close>.
\<close>

definition proto_keys :: "string list" where
  "proto_keys =
     [''constructor'', ''__defineGetter__'', ''__defineSetter__'', ''hasOwnProperty'',
      ''__lookupGetter__'', ''__lookupSetter__'', ''isPrototypeOf'', ''propertyIsEnumerable'',
      ''toString'', ''valueOf'', ''__proto__'', ''toLocaleString'']"

definition tid_of :: "post \<Rightarrow> jsval" where
  "tid_of p = js_or (thread_id p) (Str ''unknown'')"

definition thread_key :: "post \<Rightarrow> string" where
  "thread_key p = to_string (tid_of p)"

text \<open>\<open>threads[tid].posts.push(post)\<close> on the own property \<open>k\<close>.\<close>

fun push_post :: "string \<Rightarrow> post \<Rightarrow> (string \<times> thread) list \<Rightarrow> (string \<times> thread) list" where
  "push_post k p [] = []"
| "push_post k p ((k', t) # ts) =
     (if k' = k then (k', t\<lparr>posts' := posts' t @ [p]\<rparr>) # ts
      else (k', t) # push_post k p ts)"

fun group_posts :: "(string \<times> thread) list \<Rightarrow> post list \<Rightarrow> error + (string \<times> thread) list" where
  "group_posts threads [] = Inr threads"
| "group_posts threads (p # ps) =
     (if thread_key p \<in> set proto_keys then Inl TypeError
      else if map_of threads (thread_key p) = None then
        group_posts
          (push_post (thread_key p) p
             (threads @ [(thread_key p,
                          \<lparr>thread_id' = tid_of p, board' = board p, posts' = []\<rparr>)]))
          ps
      else group_posts (push_post (thread_key p) p threads) ps)"

text \<open>
  \<open>Object.values\<close>: the values of the array-index keys first, in ascending numeric
  order, then the values of the other keys in creation order.
\<close>

definition index_of_key :: "string \<times> 'a \<Rightarrow> int" where
  "index_of_key kv = (case array_index (fst kv) of Some i \<Rightarrow> i | None \<Rightarrow> 0)"

definition object_values :: "(string \<times> 'a) list \<Rightarrow> 'a list" where
  "object_values kvs =
     map snd (sort_key index_of_key (filter (\<lambda>kv. array_index (fst kv) \<noteq> None) kvs))
     @ map snd (filter (\<lambda>kv. array_index (fst kv) = None) kvs)"

text \<open>
  The comparator \<open>(a.timestamp || 0) - (b.timestamp || 0)\<close> orders posts by this key;
  \<open>Array.prototype.sort\<close> is stable, as \<open>sort_key\<close> is.
\<close>

definition ts_key :: "post \<Rightarrow> int" where
  "ts_key p = (case timestamp p of None \<Rightarrow> 0 | Some n \<Rightarrow> n)"

definition groupByThread :: "post list \<Rightarrow> error + thread list" where
  "groupByThread normalizedPosts =
     (case group_posts [] normalizedPosts of
        Inl e \<Rightarrow> Inl e
      | Inr threads \<Rightarrow>
          Inr (map (\<lambda>t. t\<lparr>posts' := sort_key ts_key (posts' t)\<rparr>) (object_values threads)))"

section \<open>Configuration and progress store\<close>

text \<open>
  \<open>CONFIG\<close>. The first three fields are the query; \<open>saveProgress\<close> stores exactly them
  with a checkpoint. The record is fixed for the length of a run (\<open>run\<close> merges the caller's
  settings into it before anything else happens).
\<close>

record query =
  username :: string
  tripcode :: string
  boards :: string

record config = query +
  delayMs :: int
  maxRetries :: int
  retryBackoffMs :: int
  startPage :: int
  storageKey :: string

definition CONFIG :: config where
  "CONFIG = \<lparr> username = [], tripcode = [], boards = ''x'', delayMs = 13000, maxRetries = 3,
              retryBackoffMs = 5000, startPage = 1, storageKey = ''4plebs_scrape_progress'' \<rparr>"

definition query_of :: "config \<Rightarrow> query" where
  "query_of cfg = \<lparr> username = username cfg, tripcode = tripcode cfg, boards = boards cfg \<rparr>"

text \<open>
  What \<open>localStorage\<close> holds under a key: nothing, a document written by \<open>saveProgress\<close>
  (\<open>posts\<close>, \<open>lastPage\<close> and \<open>config\<close>; its \<open>timestamp\<close> is the wall clock and is never read
  back), or text that \<open>loadProgress\<close> cannot read (it throws inside the \<open>try\<close>). The
  document is kept as the value \<open>JSON.parse\<close> gives back: the posts are JSON values,
  which \<open>JSON.stringify\<close> and \<open>JSON.parse\<close> return unchanged.
\<close>

record progress_record =
  posts :: "jsval list"
  lastPage :: int
  config :: query

datatype stored = Unreadable | Saved progress_record

type_synonym storage = "string \<Rightarrow> stored option"

text \<open>
  \<open>setItem\<close> throws when the quota is exceeded; \<open>saveProgress\<close> catches that and only
  warns, so the item keeps its old value. \<open>can_store\<close> says which documents fit.
\<close>

definition saveProgress ::
  "(progress_record \<Rightarrow> bool) \<Rightarrow> config \<Rightarrow> jsval list \<Rightarrow> int \<Rightarrow> storage \<Rightarrow> storage" where
  "saveProgress can_store cfg ps nextPage st =
     (let r = \<lparr> posts = ps, lastPage = nextPage, config = query_of cfg \<rparr>
      in if can_store r then st(storageKey cfg \<mapsto> Saved r) else st)"

definition loadProgress :: "config \<Rightarrow> storage \<Rightarrow> jsval list \<times> int" where
  "loadProgress cfg st =
     (case st (storageKey cfg) of
        None \<Rightarrow> ([], 0)
      | Some Unreadable \<Rightarrow> ([], 0)
      | Some (Saved saved) \<Rightarrow>
          if username (config saved) = username cfg
             \<and> tripcode (config saved) = tripcode cfg
             \<and> boards (config saved) = boards cfg
          then (posts saved, lastPage saved)
          else ([], 0))"

definition clearProgress :: "config \<Rightarrow> storage \<Rightarrow> storage" where
  "clearProgress cfg st = st(storageKey cfg := None)"

section \<open>Page sources\<close>

text \<open>
  One call of \<open>fetch\<close> settles to a rejection (the network failed) or to a response. Of a
  response the scraper reads the status, the \<open>Retry-After\<close> header, and the body: as JSON
  (\<open>None\<close> when \<open>resp.json()\<close> rejects) or as markup, of which \<open>articles\<close> lists the
  \<open>article.post\<close> elements, each as \<open>parsePostFromDom\<close> returns it. The environment of a
  run is the list of outcomes of its successive \<open>fetch\<close> calls; when the list is used up
  the next call never settles and the run stays \<open>Pending\<close> at that \<open>await\<close>.
\<close>

record response =
  status :: int
  retry_after :: "string option"
  json_body :: "jsval option"
  articles :: "jsval list"

datatype outcome = Rejected | Response response

datatype source = Api | Dom

datatype event = Request source int | Sleep "int option" | Download string

datatype 'a completion = Return 'a | Throw error | Pending

definition ok :: "response \<Rightarrow> bool" where
  "ok r = (200 \<le> status r \<and> status r \<le> 299)"

text \<open>
  \<open>parseInt(resp.headers.get('Retry-After') || '30', 10)\<close>, then \<open>sleep(retryAfter * 1000)\<close>:
  the argument of \<open>sleep\<close> in milliseconds, \<open>None\<close> for \<open>NaN\<close>.
\<close>

definition retryAfter :: "response \<Rightarrow> int option" where
  "retryAfter r =
     parseInt (case retry_after r of
                 None \<Rightarrow> ''30''
               | Some h \<Rightarrow> if h = [] then ''30'' else h)"

definition rate_limit_wait :: "response \<Rightarrow> event" where
  "rate_limit_wait r = Sleep (map_option (\<lambda>s. s * 1000) (retryAfter r))"

text \<open>
  The envelope of the API: \<open>null\<close> (here \<open>Return Null\<close>) on \<open>data.error\<close>, on a missing
  bucket and on empty \<open>posts\<close>; otherwise \<open>bucket.posts\<close> as it is.
\<close>

definition api_result :: "response \<Rightarrow> jsval completion" where
  "api_result r =
     (if \<not> ok r then Throw (HttpError (nat (status r)))
      else
        (case json_body r of
           None \<Rightarrow> Throw SyntaxError
         | Some data \<Rightarrow>
             (case get_prop data ''error'' of
                Inl e \<Rightarrow> Throw e
              | Inr err \<Rightarrow>
                  if truthy err then Return Null
                  else
                    (let bucket = js_or (read_prop data ''0'') (read_prop data ''0'')
                     in if \<not> truthy bucket \<or> \<not> truthy (read_prop bucket ''posts'')
                           \<or> read_prop (read_prop bucket ''posts'') ''length'' = Num 0
                        then Return Null
                        else Return (read_prop bucket ''posts'')))))"

fun fetchApiPage :: "int \<Rightarrow> outcome list \<Rightarrow> jsval completion \<times> event list \<times> outcome list" where
  "fetchApiPage page [] = (Pending, [Request Api page], [])"
| "fetchApiPage page (Rejected # rest) = (Throw NetworkError, [Request Api page], rest)"
| "fetchApiPage page (Response r # rest) =
     (if status r = 429 then
        (case fetchApiPage page rest of
           (c, evs, rest') \<Rightarrow> (c, Request Api page # rate_limit_wait r # evs, rest'))
      else (api_result r, [Request Api page], rest))"

definition dom_result :: "response \<Rightarrow> jsval completion" where
  "dom_result r =
     (if \<not> ok r then Throw (HttpError (nat (status r)))
      else if articles r = [] then Return Null
      else Return (Arr (articles r)))"

fun fetchDomPage :: "int \<Rightarrow> outcome list \<Rightarrow> jsval completion \<times> event list \<times> outcome list" where
  "fetchDomPage page [] = (Pending, [Request Dom page], [])"
| "fetchDomPage page (Rejected # rest) = (Throw NetworkError, [Request Dom page], rest)"
| "fetchDomPage page (Response r # rest) =
     (if status r = 429 then
        (case fetchDomPage page rest of
           (c, evs, rest') \<Rightarrow> (c, Request Dom page # rate_limit_wait r # evs, rest'))
      else (dom_result r, [Request Dom page], rest))"

text \<open>\<open>const fetchPage = useApi ? fetchApiPage : fetchDomPage\<close>.\<close>

definition fetchPage ::
  "source \<Rightarrow> int \<Rightarrow> outcome list \<Rightarrow> jsval completion \<times> event list \<times> outcome list" where
  "fetchPage src = (case src of Api \<Rightarrow> fetchApiPage | Dom \<Rightarrow> fetchDomPage)"

section \<open>Scrape engine\<close>

text \<open>
  \<open>posts.push(...pagePosts)\<close> spreads an iterable: an array gives its elements, a string
  its characters; anything else is not iterable and the call throws a TypeError, outside
  every \<open>try\<close> of \<open>scrapeAllPosts\<close>.
\<close>

definition spread :: "jsval \<Rightarrow> jsval list option" where
  "spread v =
     (case v of
        Arr xs \<Rightarrow> Some xs
      | Str s \<Rightarrow> Some (map (\<lambda>c. Str [c]) s)
      | _ \<Rightarrow> None)"

text \<open>The two ways \<open>scrapeAllPosts\<close> returns its posts.\<close>

datatype ending = Completed | CircuitBroken

lemma fetchApiPage_shorter:
  "fetchApiPage page tr = (c, evs, rest) \<Longrightarrow> c \<noteq> Pending \<Longrightarrow> length rest < length tr"
proof (induction page tr arbitrary: evs rule: fetchApiPage.induct)
  case (3 page r rest')
  then show ?case by (fastforce split: if_splits prod.splits)
qed simp_all

lemma fetchDomPage_shorter:
  "fetchDomPage page tr = (c, evs, rest) \<Longrightarrow> c \<noteq> Pending \<Longrightarrow> length rest < length tr"
proof (induction page tr arbitrary: evs rule: fetchDomPage.induct)
  case (3 page r rest')
  then show ?case by (fastforce split: if_splits prod.splits)
qed simp_all

lemma fetchPage_shorter:
  "fetchPage src page tr = (c, evs, rest) \<Longrightarrow> c \<noteq> Pending \<Longrightarrow> length rest < length tr"
  by (cases src) (auto simp: fetchPage_def dest: fetchApiPage_shorter fetchDomPage_shorter)

text \<open>
  The two nested loops of \<open>scrapeAllPosts\<close>, entered at the test of the inner one with
  the local variables \<open>posts\<close>, \<open>page\<close>, \<open>consecutiveErrors\<close> and \<open>attempt\<close>
  (\<open>pagePosts\<close> is still \<open>null\<close> there). The result is how the call ends, the store it
  leaves, the requests and waits it made, and the outcomes it did not consume.
\<close>

function scrapeLoop ::
  "(progress_record \<Rightarrow> bool) \<Rightarrow> source \<Rightarrow> config \<Rightarrow> storage \<Rightarrow> jsval list \<Rightarrow> int \<Rightarrow> int \<Rightarrow> int
   \<Rightarrow> outcome list
   \<Rightarrow> (ending \<times> jsval list) completion \<times> storage \<times> event list \<times> outcome list" where
  "scrapeLoop can_store src cfg st ps page consecutiveErrors attempt tr =
     (if attempt \<le> maxRetries cfg then
        (case fetchPage src page tr of
           (Pending, evs, rest) \<Rightarrow> (Pending, st, evs, rest)
         | (Throw err, evs, rest) \<Rightarrow>
             if consecutiveErrors + 1 \<ge> 5
             then (Return (CircuitBroken, ps), saveProgress can_store cfg ps page st, evs, rest)
             else
               (case scrapeLoop can_store src cfg st ps page (consecutiveErrors + 1) (attempt + 1) rest of
                  (c, st', evs', rest') \<Rightarrow>
                    (c, st',
                     evs @ (if attempt + 1 \<le> maxRetries cfg
                            then [Sleep (Some (retryBackoffMs cfg * (attempt + 1)))] else [])
                         @ evs',
                     rest'))
         | (Return pagePosts, evs, rest) \<Rightarrow>
             if pagePosts = Null
             then (Return (Completed, ps), clearProgress cfg st, evs, rest)
             else
               (case spread pagePosts of
                  None \<Rightarrow> (Throw TypeError, st, evs, rest)
                | Some new \<Rightarrow>
                    (case scrapeLoop can_store src cfg
                            (saveProgress can_store cfg (ps @ new) (page + 1) st)
                            (ps @ new) (page + 1) 0 0 rest of
                       (c, st', evs', rest') \<Rightarrow>
                         (c, st', evs @ [Sleep (Some (delayMs cfg))] @ evs', rest'))))
      else (Return (Completed, ps), clearProgress cfg st, [], tr))"
  by pat_completeness auto
termination
  by (relation "measure (\<lambda>(can_store, src, cfg, st, ps, page, ce, attempt, tr). length tr)")
     (auto dest: fetchPage_shorter [OF sym])

declare scrapeLoop.simps [simp del]

text \<open>
  \<open>scrapeAllPosts({useApi})\<close>: resume from the store when it holds a matching record,
  else start empty at \<open>CONFIG.startPage\<close>.
\<close>

definition scrapeAllPosts ::
  "(progress_record \<Rightarrow> bool) \<Rightarrow> source \<Rightarrow> config \<Rightarrow> storage \<Rightarrow> outcome list
   \<Rightarrow> (ending \<times> jsval list) completion \<times> storage \<times> event list \<times> outcome list" where
  "scrapeAllPosts can_store src cfg st tr =
     (case loadProgress cfg st of
        (ps, lastPg) \<Rightarrow>
          scrapeLoop can_store src cfg st ps
            (if lastPg > 0 then lastPg else startPage cfg) 0 0 tr)"

section \<open>Public interface\<close>

text \<open>
  \<open>run\<close>, after the caller's settings were merged into \<open>CONFIG\<close>. It returns
  \<open>undefined\<close> when no identity is configured, \<open>[]\<close> when nothing was scraped, and the
  normalized posts otherwise, after three downloads. The summary it prints reads the
  normalized posts only and cannot throw.
\<close>

datatype run_value = NoIdentity | NoPosts | Normalized "post list" "thread list"

definition is_alnum :: "char \<Rightarrow> bool" where
  "is_alnum c =
     (let n = (of_char c :: int)
      in (48 \<le> n \<and> n \<le> 57) \<or> (65 \<le> n \<and> n \<le> 90) \<or> (97 \<le> n \<and> n \<le> 122))"

definition nameSlug :: "config \<Rightarrow> string" where
  "nameSlug cfg =
     map (\<lambda>c. if is_alnum c then c else CHR ''_'')
       (if username cfg \<noteq> [] then username cfg
        else if tripcode cfg \<noteq> [] then tripcode cfg else ''anon'')"

definition finish :: "(string \<Rightarrow> string) \<Rightarrow> config \<Rightarrow> jsval list \<Rightarrow> run_value completion \<times> event list" where
  "finish dom_text cfg rawPosts =
     (if rawPosts = [] then (Return NoPosts, [])
      else
        (case normalizePosts dom_text rawPosts of
           Inl e \<Rightarrow> (Throw e, [])
         | Inr normalized \<Rightarrow>
             (case groupByThread normalized of
                Inl e \<Rightarrow> (Throw e, [])
              | Inr threaded \<Rightarrow>
                  (Return (Normalized normalized threaded),
                   [Download (''4plebs_'' @ nameSlug cfg @ ''_flat.json''),
                    Download (''4plebs_'' @ nameSlug cfg @ ''_threaded.json''),
                    Download (''4plebs_'' @ nameSlug cfg @ ''_posts.jsonl'')]))))"

definition after_scrape ::
  "(string \<Rightarrow> string) \<Rightarrow> config
   \<Rightarrow> (ending \<times> jsval list) completion \<times> storage \<times> event list \<times> outcome list
   \<Rightarrow> run_value completion \<times> storage \<times> event list \<times> outcome list" where
  "after_scrape dom_text cfg res =
     (case res of
        (Pending, st, evs, rest) \<Rightarrow> (Pending, st, evs, rest)
      | (Throw e, st, evs, rest) \<Rightarrow> (Throw e, st, evs, rest)
      | (Return (how, rawPosts), st, evs, rest) \<Rightarrow>
          (case finish dom_text cfg rawPosts of
             (c, evs') \<Rightarrow> (c, st, evs @ evs', rest)))"

definition run ::
  "(progress_record \<Rightarrow> bool) \<Rightarrow> (string \<Rightarrow> string) \<Rightarrow> config \<Rightarrow> storage \<Rightarrow> outcome list
   \<Rightarrow> run_value completion \<times> storage \<times> event list \<times> outcome list" where
  "run can_store dom_text cfg st tr =
     (if username cfg = [] \<and> tripcode cfg = [] then (Return NoIdentity, st, [], tr)
      else
        (case scrapeAllPosts can_store Api cfg st tr of
           (Throw err, st1, evs1, rest1) \<Rightarrow>
             (case after_scrape dom_text cfg (scrapeAllPosts can_store Dom cfg st1 rest1) of
                (c, st2, evs2, rest2) \<Rightarrow> (c, st2, evs1 @ evs2, rest2))
         | res \<Rightarrow> after_scrape dom_text cfg res))"

section \<open>Notions used in the statements\<close>

text \<open>
  The canonical post as the JSON object the exports serialise: the keys of the object
  literal, in its order, with \<open>null\<close> for an absent timestamp or date.
\<close>

definition post_fields :: "string list" where
  "post_fields =
     [''post_id'', ''thread_id'', ''board'', ''is_op'', ''timestamp'', ''date_human'',
      ''date_iso'', ''name'', ''tripcode'', ''poster_id'', ''country'', ''subject'', ''text'',
      ''text_html'', ''has_media'', ''media_filename'', ''media_url'', ''thumb_url'',
      ''deleted'']"

definition post_object :: "post \<Rightarrow> (string \<times> jsval) list" where
  "post_object r =
     [(''post_id'', post_id r),
      (''thread_id'', thread_id r),
      (''board'', board r),
      (''is_op'', Bool (is_op r)),
      (''timestamp'', (case timestamp r of None \<Rightarrow> Null | Some n \<Rightarrow> Num n)),
      (''date_human'', date_human r),
      (''date_iso'', (case date_iso r of None \<Rightarrow> Null | Some s \<Rightarrow> Str s)),
      (''name'', name r),
      (''tripcode'', tripcode' r),
      (''poster_id'', poster_id r),
      (''country'', country r),
      (''subject'', subject r),
      (''text'', Str (text' r)),
      (''text_html'', text_html r),
      (''has_media'', Bool (has_media r)),
      (''media_filename'', media_filename r),
      (''media_url'', media_url r),
      (''thumb_url'', thumb_url r),
      (''deleted'', Bool (deleted r))]"

text \<open>
  A raw post is \<^emph>\<open>tolerable\<close> when it is an object whose two comment fields, where
  present, are strings (or \<open>null\<close>) and whose timestamp, where present and truthy, parses
  to an epoch time inside the range of \<open>Date\<close>. Every other field may be missing or hold
  anything. A field is \<^emph>\<open>missing\<close> when reading it gives \<open>undefined\<close>.
\<close>

definition is_text :: "jsval \<Rightarrow> bool" where
  "is_text v = (case v of Undefined \<Rightarrow> True | Null \<Rightarrow> True | Str s \<Rightarrow> True | _ \<Rightarrow> False)"

definition valid_timestamp :: "jsval \<Rightarrow> bool" where
  "valid_timestamp v =
     (if truthy v then
        (case parseInt (to_string v) of
           None \<Rightarrow> False
         | Some n \<Rightarrow> \<bar>n * 1000\<bar> \<le> 8640000000000000)
      else True)"

definition missing :: "jsval \<Rightarrow> string \<Rightarrow> bool" where
  "missing p k = (read_prop p k = Undefined)"

definition tolerable :: "jsval \<Rightarrow> bool" where
  "tolerable p =
     (case p of
        Obj kvs \<Rightarrow> is_text (lookup kvs ''comment_sanitized'') \<and> is_text (lookup kvs ''comment'')
                   \<and> valid_timestamp (lookup kvs ''timestamp'')
      | _ \<Rightarrow> False)"

text \<open>
  What the output holds for missing raw fields: \<open>null\<close>, except for \<open>text\<close> (the empty
  string) and the three flags (\<open>false\<close>).
\<close>

definition missing_defaults :: "jsval \<Rightarrow> post \<Rightarrow> bool" where
  "missing_defaults p r =
     ((missing p ''num'' \<longrightarrow> post_id r = Null)
      \<and> (missing p ''thread_num'' \<longrightarrow> thread_id r = Null)
      \<and> (missing p ''board'' \<longrightarrow> board r = Null)
      \<and> (missing p ''timestamp'' \<longrightarrow> timestamp r = None \<and> date_iso r = None)
      \<and> (missing p ''fourchan_date'' \<longrightarrow> date_human r = Null)
      \<and> (missing p ''name'' \<longrightarrow> name r = Null)
      \<and> (missing p ''trip'' \<longrightarrow> tripcode' r = Null)
      \<and> (missing p ''poster_hash'' \<longrightarrow> poster_id r = Null)
      \<and> (missing p ''poster_country'' \<longrightarrow> country r = Null)
      \<and> (missing p ''title'' \<longrightarrow> subject r = Null)
      \<and> (missing p ''comment_processed'' \<and> missing p ''comment_html'' \<longrightarrow> text_html r = Null)
      \<and> (missing p ''media'' \<and> missing p ''media_filename'' \<longrightarrow> media_filename r = Null)
      \<and> (missing p ''media'' \<and> missing p ''media_url'' \<longrightarrow> media_url r = Null)
      \<and> (missing p ''media'' \<and> missing p ''thumb_url'' \<longrightarrow> thumb_url r = Null)
      \<and> (missing p ''comment_sanitized'' \<and> missing p ''comment'' \<longrightarrow> text' r = [])
      \<and> (missing p ''op'' \<longrightarrow> \<not> is_op r)
      \<and> (missing p ''media'' \<and> missing p ''media_url'' \<longrightarrow> \<not> has_media r)
      \<and> (missing p ''deleted'' \<longrightarrow> \<not> deleted r))"

text \<open>
  An outcome \<^emph>\<open>serves a page\<close> when it is a rate-limit answer or a page with posts: the
  page source answers every request, possibly after asking to wait. \<open>outcome_of\<close>
  forgets the log of requests and waits. \<open>resume_point\<close> is where \<open>scrapeAllPosts\<close>
  enters its loop.
\<close>

definition serves_page :: "source \<Rightarrow> outcome \<Rightarrow> bool" where
  "serves_page src out =
     (case out of
        Rejected \<Rightarrow> False
      | Response r \<Rightarrow>
          status r = 429 \<or>
          (case (case src of Api \<Rightarrow> api_result r | Dom \<Rightarrow> dom_result r) of
             Return v \<Rightarrow> v \<noteq> Null \<and> spread v \<noteq> None
           | _ \<Rightarrow> False))"

definition outcome_of ::
  "'a completion \<times> storage \<times> event list \<times> outcome list \<Rightarrow> 'a completion \<times> storage \<times> outcome list" where
  "outcome_of res = (case res of (c, st, evs, rest) \<Rightarrow> (c, st, rest))"

definition resume_point :: "config \<Rightarrow> storage \<Rightarrow> jsval list \<times> int" where
  "resume_point cfg st =
     (case loadProgress cfg st of (ps, lastPg) \<Rightarrow> (ps, if lastPg > 0 then lastPg else startPage cfg))"


section \<open>Sample data\<close>

text \<open>
  The default settings for the user \<open>Bob\<close>; answers of the archive; and what can be
  observed of a run: how it ended, the item left under the storage key, the requests and
  waits in order, and the answers that were never asked for.
\<close>

definition sample_config :: config where
  "sample_config = CONFIG\<lparr>username := ''Bob''\<rparr>"

definition api_page :: "jsval list \<Rightarrow> outcome" where
  "api_page ps =
     Response \<lparr> status = 200, retry_after = None,
                json_body = Some (Obj [(''0'', Obj [(''posts'', Arr ps)])]), articles = [] \<rparr>"

definition api_end :: outcome where
  "api_end =
     Response \<lparr> status = 200, retry_after = None,
                json_body = Some (Obj [(''error'', Str ''No results found.'')]), articles = [] \<rparr>"

definition dom_page :: "jsval list \<Rightarrow> outcome" where
  "dom_page ps = Response \<lparr> status = 200, retry_after = None, json_body = None, articles = ps \<rparr>"

definition http_error :: "int \<Rightarrow> outcome" where
  "http_error code = Response \<lparr> status = code, retry_after = None, json_body = None, articles = [] \<rparr>"

definition rate_limited :: "string option \<Rightarrow> outcome" where
  "rate_limited h = Response \<lparr> status = 429, retry_after = h, json_body = None, articles = [] \<rparr>"

definition observe ::
  "config \<Rightarrow> 'a completion \<times> storage \<times> event list \<times> outcome list
   \<Rightarrow> 'a completion \<times> stored option \<times> event list \<times> outcome list" where
  "observe cfg res = (case res of (c, st, evs, rest) \<Rightarrow> (c, st (storageKey cfg), evs, rest))"

definition sample_raw :: "jsval list" where
  "sample_raw =
     [Obj [],
      Obj [(''num'', Str ''12345678''), (''thread_num'', Str ''12345000''),
           (''timestamp'', Num 1700000000), (''comment'', Str ''The  cards are showing... '')]]"

definition sample_normalized :: "post list" where
  "sample_normalized =
     [\<lparr> post_id = Null, thread_id = Null, board = Null, is_op = False, timestamp = None,
        date_human = Null, date_iso = None, name = Null, tripcode' = Null, poster_id = Null,
        country = Null, subject = Null, text' = [], text_html = Null, has_media = False,
        media_filename = Null, media_url = Null, thumb_url = Null, deleted = False \<rparr>,
      \<lparr> post_id = Str ''12345678'', thread_id = Str ''12345000'', board = Null, is_op = False,
        timestamp = Some 1700000000, date_human = Null,
        date_iso = Some ''2023-11-14T22:13:20.000Z'', name = Null, tripcode' = Null,
        poster_id = Null, country = Null, subject = Null, text' = ''The cards are showing...'',
        text_html = Null, has_media = False, media_filename = Null, media_url = Null,
        thumb_url = Null, deleted = False \<rparr>]"


definition sample_saved :: progress_record where
  "sample_saved = \<lparr> posts = sample_raw, lastPage = 2, config = query_of sample_config \<rparr>"

definition sample_store :: storage where
  "sample_store = Map.empty(storageKey sample_config \<mapsto> Saved sample_saved)"

definition sample_post :: "jsval \<Rightarrow> jsval \<Rightarrow> int option \<Rightarrow> post" where
  "sample_post t b ts =
     \<lparr> post_id = Null, thread_id = t, board = b, is_op = False, timestamp = ts,
       date_human = Null, date_iso = None, name = Null, tripcode' = Null, poster_id = Null,
       country = Null, subject = Null, text' = [], text_html = Null, has_media = False,
       media_filename = Null, media_url = Null, thumb_url = Null, deleted = False \<rparr>"

definition sample_posts :: "post list" where
  "sample_posts =
     [sample_post (Str ''200'') (Str ''x'') (Some 5),
      sample_post Null (Str ''a'') None,
      sample_post (Str ''200'') (Str ''pol'') (Some 3)]"

definition sample_threads :: "thread list" where
  "sample_threads =
     [\<lparr>thread_id' = Str ''200'', board' = Str ''x'',
        posts' = [sample_post (Str ''200'') (Str ''pol'') (Some 3),
                  sample_post (Str ''200'') (Str ''x'') (Some 5)]\<rparr>,
      \<lparr>thread_id' = Str ''unknown'', board' = Str ''a'',
        posts' = [sample_post Null (Str ''a'') None]\<rparr>]"

section \<open>Properties of the thread grouper\<close>

lemma map_of_push_post:
  "map_of (push_post k p ts) k' =
     (if k' = k then map_option (\<lambda>t. t\<lparr>posts' := posts' t @ [p]\<rparr>) (map_of ts k) else map_of ts k')"
  by (induction ts) auto

lemma keys_push_post: "map fst (push_post k p ts) = map fst ts"
  by (induction ts) auto

lemma mset_push_post:
  "map_of ts k \<noteq> None \<Longrightarrow>
   mset (concat (map (\<lambda>kv. posts' (snd kv)) (push_post k p ts))) =
   add_mset p (mset (concat (map (\<lambda>kv. posts' (snd kv)) ts)))"
  by (induction ts) auto

lemma group_posts_mset:
  "group_posts threads ps = Inr r \<Longrightarrow>
   mset (concat (map (\<lambda>kv. posts' (snd kv)) r)) =
   mset (concat (map (\<lambda>kv. posts' (snd kv)) threads)) + mset ps"
proof (induction ps arbitrary: threads)
  case Nil
  then show ?case by simp
next
  case (Cons p ps)
  show ?case
  proof (cases "map_of threads (thread_key p) = None")
    case True
    let ?new = "threads @ [(thread_key p, \<lparr>thread_id' = tid_of p, board' = board p, posts' = []\<rparr>)]"
    from Cons.prems True have run: "group_posts (push_post (thread_key p) p ?new) ps = Inr r"
      by (simp split: if_splits)
    have "map_of ?new (thread_key p) \<noteq> None" by (simp add: map_add_Some_iff)
    then have "mset (concat (map (\<lambda>kv. posts' (snd kv)) (push_post (thread_key p) p ?new))) =
               add_mset p (mset (concat (map (\<lambda>kv. posts' (snd kv)) ?new)))"
      by (rule mset_push_post)
    with Cons.IH [OF run] show ?thesis by simp
  next
    case False
    from Cons.prems False have run: "group_posts (push_post (thread_key p) p threads) ps = Inr r"
      by (simp split: if_splits)
    from Cons.IH [OF run] mset_push_post [OF False] show ?thesis by simp
  qed
qed

lemma group_posts_distinct:
  "group_posts threads ps = Inr r \<Longrightarrow> distinct (map fst threads) \<Longrightarrow> distinct (map fst r)"
proof (induction ps arbitrary: threads)
  case Nil
  then show ?case by simp
next
  case (Cons p ps)
  show ?case
  proof (cases "map_of threads (thread_key p) = None")
    case True
    let ?new = "threads @ [(thread_key p, \<lparr>thread_id' = tid_of p, board' = board p, posts' = []\<rparr>)]"
    from Cons.prems True have run: "group_posts (push_post (thread_key p) p ?new) ps = Inr r"
      by (simp split: if_splits)
    from True have "thread_key p \<notin> fst ` set threads" by (simp add: map_of_eq_None_iff)
    with Cons.prems(2) have "distinct (map fst (push_post (thread_key p) p ?new))"
      by (simp add: keys_push_post)
    with Cons.IH [OF run] show ?thesis by simp
  next
    case False
    from Cons.prems False have run: "group_posts (push_post (thread_key p) p threads) ps = Inr r"
      by (simp split: if_splits)
    from Cons.IH [OF run] Cons.prems(2) show ?thesis by (simp add: keys_push_post)
  qed
qed

lemma mset_object_values: "mset (object_values kvs) = mset (map snd kvs)"
proof -
  have "image_mset snd (filter_mset (\<lambda>x. \<exists>y. array_index (fst x) = Some y) M)
        + image_mset snd (filter_mset (\<lambda>x. array_index (fst x) = None) M) = image_mset snd M"
    for M :: "(string \<times> 'a) multiset"
    by (induction M) auto
  then show ?thesis by (simp add: object_values_def)
qed

lemma set_object_values: "set (object_values kvs) = snd ` set kvs"
proof -
  have "set_mset (mset (object_values kvs)) = set_mset (mset (map snd kvs))"
    by (simp only: mset_object_values)
  then show ?thesis by simp
qed

lemma mset_concat_perm:
  "mset xs = mset ys \<Longrightarrow> mset (concat (map f xs)) = mset (concat (map f ys))"
proof -
  assume "mset xs = mset ys"
  then have "image_mset (\<lambda>x. mset (f x)) (mset xs) = image_mset (\<lambda>x. mset (f x)) (mset ys)"
    by simp
  then have "sum_mset (mset (map (\<lambda>x. mset (f x)) xs)) = sum_mset (mset (map (\<lambda>x. mset (f x)) ys))"
    by simp
  then show ?thesis
    by (simp add: mset_concat sum_mset_sum_list comp_def del: mset_map)
qed

lemma group_posts_keep:
  "group_posts threads ps = Inr r \<Longrightarrow> map_of threads k = Some t \<Longrightarrow>
   \<exists>t'. map_of r k = Some t' \<and> thread_id' t' = thread_id' t \<and> board' t' = board' t
        \<and> set (posts' t) \<subseteq> set (posts' t')"
proof (induction ps arbitrary: threads t)
  case Nil
  then show ?case by auto
next
  case (Cons p ps)
  let ?k = "thread_key p"
  show ?case
  proof (cases "map_of threads ?k = None")
    case True
    let ?new = "threads @ [(?k, \<lparr>thread_id' = tid_of p, board' = board p, posts' = []\<rparr>)]"
    from Cons.prems True have run: "group_posts (push_post ?k p ?new) ps = Inr r"
      by (simp split: if_splits)
    from True Cons.prems(2) have "k \<noteq> ?k" by auto
    with Cons.prems(2) have "map_of (push_post ?k p ?new) k = Some t"
      by (simp add: map_of_push_post map_add_Some_iff)
    from Cons.IH [OF run this] show ?thesis .
  next
    case False
    from Cons.prems False have run: "group_posts (push_post ?k p threads) ps = Inr r"
      by (simp split: if_splits)
    show ?thesis
    proof (cases "k = ?k")
      case True
      with Cons.prems(2) have "map_of (push_post ?k p threads) k = Some (t\<lparr>posts' := posts' t @ [p]\<rparr>)"
        by (simp add: map_of_push_post)
      from Cons.IH [OF run this] show ?thesis by auto
    next
      case False
      with Cons.prems(2) have "map_of (push_post ?k p threads) k = Some t"
        by (simp add: map_of_push_post)
      from Cons.IH [OF run this] show ?thesis .
    qed
  qed
qed

lemma group_posts_member:
  "group_posts threads ps = Inr r \<Longrightarrow> p \<in> set ps \<Longrightarrow>
   \<exists>t. map_of r (thread_key p) = Some t \<and> p \<in> set (posts' t)"
proof (induction ps arbitrary: threads)
  case Nil
  then show ?case by simp
next
  case (Cons q ps)
  let ?k = "thread_key q"
  let ?new = "threads @ [(?k, \<lparr>thread_id' = tid_of q, board' = board q, posts' = []\<rparr>)]"
  let ?next = "if map_of threads ?k = None then push_post ?k q ?new else push_post ?k q threads"
  from Cons.prems(1) have run: "group_posts ?next ps = Inr r"
    by (auto split: if_splits)
  show ?case
  proof (cases "p \<in> set ps")
    case True
    from Cons.IH [OF run True] show ?thesis .
  next
    case False
    with Cons.prems(2) have pq: "p = q" by simp
    have "\<exists>t. map_of ?next ?k = Some t \<and> q \<in> set (posts' t)"
      by (cases "map_of threads ?k") (auto simp: map_of_push_post map_add_Some_iff)
    then obtain t where t: "map_of ?next ?k = Some t" "q \<in> set (posts' t)" by blast
    from group_posts_keep [OF run t(1)] t(2) pq show ?thesis by auto
  qed
qed

lemma group_posts_first:
  "group_posts threads ps = Inr r \<Longrightarrow> map_of r k = Some t \<Longrightarrow> map_of threads k = None \<Longrightarrow>
   \<exists>p. find (\<lambda>q. thread_key q = k) ps = Some p \<and> board' t = board p \<and> thread_id' t = tid_of p"
proof (induction ps arbitrary: threads)
  case Nil
  then show ?case by simp
next
  case (Cons q ps)
  let ?k = "thread_key q"
  let ?new = "threads @ [(?k, \<lparr>thread_id' = tid_of q, board' = board q, posts' = []\<rparr>)]"
  let ?next = "if map_of threads ?k = None then push_post ?k q ?new else push_post ?k q threads"
  from Cons.prems(1) have run: "group_posts ?next ps = Inr r"
    by (auto split: if_splits)
  show ?case
  proof (cases "?k = k")
    case True
    with Cons.prems(3) have "map_of ?next k =
        Some \<lparr>thread_id' = tid_of q, board' = board q, posts' = [q]\<rparr>"
      by (simp add: map_of_push_post map_add_Some_iff)
    from group_posts_keep [OF run this] Cons.prems(2) True show ?thesis by auto
  next
    case False
    with Cons.prems(3) have "map_of ?next k = None"
      by (simp add: map_of_push_post map_add_def)
    from Cons.IH [OF run Cons.prems(2) this] False show ?thesis by simp
  qed
qed

lemma groupByThread_result:
  assumes "groupByThread ps = Inr ts"
  obtains r where "group_posts [] ps = Inr r" "distinct (map fst r)"
    "ts = map (\<lambda>t. t\<lparr>posts' := sort_key ts_key (posts' t)\<rparr>) (object_values r)"
proof -
  from assms obtain r where r: "group_posts [] ps = Inr r"
    and ts: "ts = map (\<lambda>t. t\<lparr>posts' := sort_key ts_key (posts' t)\<rparr>) (object_values r)"
    by (auto simp: groupByThread_def split: sum.splits)
  from group_posts_distinct [OF r] have "distinct (map fst r)" by simp
  with r ts that show thesis by blast
qed


lemma groupByThread_returns:
  "(\<exists>ts. groupByThread ps = Inr ts) \<longleftrightarrow> (\<forall>p \<in> set ps. thread_key p \<notin> set proto_keys)"
proof -
  have "(\<exists>r. group_posts threads ps = Inr r) \<longleftrightarrow> (\<forall>p \<in> set ps. thread_key p \<notin> set proto_keys)"
    for threads
    by (induction ps arbitrary: threads) auto
  from this [of "[]"] show ?thesis
    by (cases "group_posts [] ps") (auto simp: groupByThread_def)
qed

lemma sample_grouped: "groupByThread sample_posts = Inr sample_threads"
  by code_simp

text \<open>
  C7. Whenever \<open>groupByThread\<close> returns, the posts of all returned threads together are
  the input as a multiset (nothing lost, nothing duplicated); inside every thread the
  timestamps, a missing one counting as 0, never decrease; and every post without a
  \<open>thread_id\<close> is in the thread whose key is the sentinel \<open>unknown\<close>.
\<close>

theorem groupByThread_partition:
  assumes "groupByThread ps = Inr ts"
  shows "mset (concat (map posts' ts)) = mset ps
       \<and> (\<forall>t \<in> set ts. sorted (map ts_key (posts' t)))
       \<and> (\<forall>p \<in> set ps. \<not> truthy (thread_id p) \<longrightarrow>
             (\<exists>t \<in> set ts. to_string (thread_id' t) = ''unknown'' \<and> p \<in> set (posts' t)))"
proof (intro conjI)
  from assms obtain r where r: "group_posts [] ps = Inr r" and d: "distinct (map fst r)"
    and ts: "ts = map (\<lambda>t. t\<lparr>posts' := sort_key ts_key (posts' t)\<rparr>) (object_values r)"
    by (rule groupByThread_result)
  have "mset (concat (map posts' ts)) =
        mset (concat (map (\<lambda>t. sort_key ts_key (posts' t)) (object_values r)))"
    by (simp add: ts comp_def)
  also have "\<dots> = mset (concat (map (\<lambda>t. sort_key ts_key (posts' t)) (map snd r)))"
    by (rule mset_concat_perm) (simp add: mset_object_values)
  also have "\<dots> = mset (concat (map (\<lambda>kv. posts' (snd kv)) r))"
    by (induction r) simp_all
  also have "\<dots> = mset ps"
    using group_posts_mset [OF r] by simp
  finally show "mset (concat (map posts' ts)) = mset ps" .
  show "\<forall>t \<in> set ts. sorted (map ts_key (posts' t))"
    by (auto simp: ts)
  show "\<forall>p \<in> set ps. \<not> truthy (thread_id p) \<longrightarrow>
          (\<exists>t \<in> set ts. to_string (thread_id' t) = ''unknown'' \<and> p \<in> set (posts' t))"
  proof (intro ballI impI)
    fix p assume p: "p \<in> set ps" and falsy: "\<not> truthy (thread_id p)"
    from falsy have key: "thread_key p = ''unknown''"
      by (simp add: thread_key_def tid_of_def js_or_def)
    from group_posts_member [OF r p] obtain t where
      t: "map_of r (thread_key p) = Some t" "p \<in> set (posts' t)" by blast
    from group_posts_first [OF r t(1)] have "thread_key p = to_string (thread_id' t)"
      by (auto simp: thread_key_def dest: find_Some_iff [THEN iffD1])
    with key have k: "to_string (thread_id' t) = ''unknown''" by simp
    from t(1) have "t \<in> set (object_values r)"
      by (force simp: set_object_values dest: map_of_SomeD)
    then have "t\<lparr>posts' := sort_key ts_key (posts' t)\<rparr> \<in> set ts"
      by (simp add: ts)
    with k t(2) show "\<exists>t \<in> set ts. to_string (thread_id' t) = ''unknown'' \<and> p \<in> set (posts' t)"
      by (intro bexI [where x = "t\<lparr>posts' := sort_key ts_key (posts' t)\<rparr>"]) simp_all
  qed
qed

theorem groupByThread_partition_witness:
  "groupByThread sample_posts = Inr sample_threads
   \<and> mset (concat (map posts' sample_threads)) = mset sample_posts
   \<and> list_all (\<lambda>t. sorted (map ts_key (posts' t))) sample_threads
   \<and> list_ex (\<lambda>t. to_string (thread_id' t) = ''unknown''
                 \<and> sample_post Null (Str ''a'') None \<in> set (posts' t)) sample_threads"
proof -
  note inst = groupByThread_partition [OF sample_grouped]
  have falsy: "\<not> truthy (thread_id (sample_post Null (Str ''a'') None))"
    by (simp add: sample_post_def)
  have mem: "sample_post Null (Str ''a'') None \<in> set sample_posts"
    by (simp add: sample_posts_def)
  from inst have "mset (concat (map posts' sample_threads)) = mset sample_posts" by blast
  moreover from inst have "list_all (\<lambda>t. sorted (map ts_key (posts' t))) sample_threads"
    unfolding list_all_iff by blast
  moreover from inst falsy mem
  have "list_ex (\<lambda>t. to_string (thread_id' t) = ''unknown''
                 \<and> sample_post Null (Str ''a'') None \<in> set (posts' t)) sample_threads"
    unfolding list_ex_iff by blast
  ultimately show ?thesis using sample_grouped by blast
qed

text \<open>
  C10. The \<open>board\<close> of a returned thread is the board of the first post of the input, in
  input order, whose key is the thread's key: it is written once, when the thread is
  created, and no later post of the thread changes it.
\<close>

theorem groupByThread_board:
  assumes "groupByThread ps = Inr ts" and "t \<in> set ts"
  shows "\<exists>p. find (\<lambda>q. thread_key q = to_string (thread_id' t)) ps = Some p \<and> board' t = board p"
proof -
  from assms(1) obtain r where r: "group_posts [] ps = Inr r" and d: "distinct (map fst r)"
    and ts: "ts = map (\<lambda>t. t\<lparr>posts' := sort_key ts_key (posts' t)\<rparr>) (object_values r)"
    by (rule groupByThread_result)
  from assms(2) obtain k t0 where kt: "(k, t0) \<in> set r"
    and t: "t = t0\<lparr>posts' := sort_key ts_key (posts' t0)\<rparr>"
    by (auto simp: ts set_object_values)
  from kt d have m: "map_of r k = Some t0" by simp
  from group_posts_first [OF r m] obtain p where
    p: "find (\<lambda>q. thread_key q = k) ps = Some p" "board' t0 = board p" "thread_id' t0 = tid_of p"
    by auto
  from p(1) have "thread_key p = k" by (auto dest: find_Some_iff [THEN iffD1])
  with p(3) have "k = to_string (thread_id' t)" by (simp add: t thread_key_def)
  with p t show ?thesis by simp
qed

theorem groupByThread_board_witness:
  "groupByThread sample_posts = Inr sample_threads
   \<and> hd sample_threads \<in> set sample_threads
   \<and> find (\<lambda>q. thread_key q = to_string (thread_id' (hd sample_threads))) sample_posts
       = Some (sample_post (Str ''200'') (Str ''x'') (Some 5))
   \<and> board' (hd sample_threads) = Str ''x''
   \<and> map board (posts' (hd sample_threads)) = [Str ''pol'', Str ''x'']"
proof -
  have mem: "hd sample_threads \<in> set sample_threads"
    by (simp add: sample_threads_def)
  have first: "find (\<lambda>q. thread_key q = to_string (thread_id' (hd sample_threads))) sample_posts
       = Some (sample_post (Str ''200'') (Str ''x'') (Some 5))"
    by (simp add: sample_threads_def sample_posts_def sample_post_def thread_key_def tid_of_def
        js_or_def)
  from groupByThread_board [OF sample_grouped mem] first
  have "board' (hd sample_threads) = board (sample_post (Str ''200'') (Str ''x'') (Some 5))"
    by auto
  then have "board' (hd sample_threads) = Str ''x''"
    by (simp add: sample_post_def)
  moreover have "map board (posts' (hd sample_threads)) = [Str ''pol'', Str ''x'']"
    by (simp add: sample_threads_def sample_post_def)
  ultimately show ?thesis using sample_grouped mem first by blast
qed

section \<open>Properties of the normalizer\<close>

lemma strip_tags_text:
  "is_text a \<Longrightarrow> is_text b \<Longrightarrow> \<exists>t. strip_tags d (js_or (js_or a b) (Str [])) = Inr t"
  by (cases a; cases b) (auto simp: is_text_def js_or_def strip_tags_def)

lemma toISOString_valid:
  "\<bar>ms\<bar> \<le> 8640000000000000 \<Longrightarrow> \<exists>s. toISOString (Some ms) = Inr s"
  by (simp add: toISOString_def Let_def split: prod.splits)

lemma convert_timestamp_valid:
  assumes "valid_timestamp v"
  shows "\<exists>ts ds. convert_timestamp v = Inr (ts, ds)"
proof (cases "truthy v")
  case True
  with assms obtain n where n: "parseInt (to_string v) = Some n" "\<bar>n * 1000\<bar> \<le> 8640000000000000"
    by (auto simp: valid_timestamp_def split: option.splits)
  from toISOString_valid [OF n(2)] obtain s where "toISOString (Some (n * 1000)) = Inr s" ..
  with True n(1) show ?thesis by (simp add: convert_timestamp_def)
next
  case False
  then show ?thesis by (simp add: convert_timestamp_def)
qed

lemma normalizePost_total:
  assumes "is_text (lookup kvs ''comment_sanitized'')" "is_text (lookup kvs ''comment'')"
    and "valid_timestamp (lookup kvs ''timestamp'')"
  shows "\<exists>r. normalizePost d (Obj kvs) = Inr r"
proof -
  from strip_tags_text [OF assms(1,2)] obtain t where
    "strip_tags d (pick_text (Obj kvs)) = Inr t" by (auto simp: pick_text_def)
  moreover from convert_timestamp_valid [OF assms(3)] obtain ts ds where
    "convert_timestamp (read_prop (Obj kvs) ''timestamp'') = Inr (ts, ds)" by auto
  ultimately show ?thesis by (simp add: normalizePost_def)
qed

lemma normalizePost_dates:
  "normalizePost d p = Inr r \<Longrightarrow> (timestamp r = None) = (date_iso r = None)"
  by (auto simp: normalizePost_def convert_timestamp_def
      split: if_splits sum.splits option.splits prod.splits)

lemma normalizePosts_all:
  "normalizePosts d raw = Inr ps \<Longrightarrow> r \<in> set ps \<Longrightarrow> \<exists>p \<in> set raw. normalizePost d p = Inr r"
  by (induction raw arbitrary: ps) (auto split: sum.splits)

lemma post_object_fields: "map fst (post_object r) = post_fields"
  by (simp add: post_object_def post_fields_def)

lemma text_of_missing:
  "missing p ''comment_sanitized'' \<Longrightarrow> missing p ''comment'' \<Longrightarrow>
   strip_tags d (pick_text p) = Inr t \<Longrightarrow> trim (collapse_ws t) = []"
  by (auto simp: missing_def pick_text_def js_or_def strip_tags_def trim_def)

lemma dates_of_missing:
  "missing p ''timestamp'' \<Longrightarrow> convert_timestamp (read_prop p ''timestamp'') = Inr (ts, ds) \<Longrightarrow>
   ts = None \<and> ds = None"
  by (simp add: missing_def convert_timestamp_def)

lemma normalizePost_defaults:
  assumes "normalizePost d p = Inr r"
  shows "missing_defaults p r"
proof -
  from assms obtain t ts ds where
    t: "strip_tags d (pick_text p) = Inr t"
    and c: "convert_timestamp (read_prop p ''timestamp'') = Inr (ts, ds)"
    and r: "text' r = trim (collapse_ws t)" "timestamp r = ts" "date_iso r = ds"
    by (auto simp: normalizePost_def split: if_splits sum.splits prod.splits)
  have nul: "missing p ''comment_sanitized'' \<and> missing p ''comment'' \<longrightarrow> text' r = []"
    using text_of_missing [OF _ _ t] r(1) by auto
  have dts: "missing p ''timestamp'' \<longrightarrow> timestamp r = None \<and> date_iso r = None"
    using dates_of_missing [OF _ c] r(2,3) by auto
  from assms have rest:
    "post_id r = js_or (read_prop p ''num'') Null"
    "thread_id r = js_or (read_prop p ''thread_num'') Null"
    "board r = js_or (js_or (opt_prop (read_prop p ''board'') ''shortname'') (read_prop p ''board'')) Null"
    "is_op r = (read_prop p ''op'' = Str ''1'' \<or> read_prop p ''op'' = Num 1)"
    "date_human r = js_or (read_prop p ''fourchan_date'') Null"
    "name r = js_or (read_prop p ''name'') Null"
    "tripcode' r = js_or (read_prop p ''trip'') Null"
    "poster_id r = js_or (read_prop p ''poster_hash'') Null"
    "country r = js_or (read_prop p ''poster_country'') Null"
    "subject r = js_or (read_prop p ''title'') Null"
    "text_html r = js_or (js_or (read_prop p ''comment_processed'') (read_prop p ''comment_html'')) Null"
    "has_media r = truthy (js_or (read_prop p ''media'') (read_prop p ''media_url''))"
    "media_filename r = js_or (js_or (opt_prop (read_prop p ''media'') ''media_filename'')
                                     (read_prop p ''media_filename'')) Null"
    "media_url r = js_or (js_or (opt_prop (read_prop p ''media'') ''media_link'')
                                (read_prop p ''media_url'')) Null"
    "thumb_url r = js_or (js_or (opt_prop (read_prop p ''media'') ''thumb_link'')
                                (read_prop p ''thumb_url'')) Null"
    "deleted r = (read_prop p ''deleted'' = Str ''1'' \<or> read_prop p ''deleted'' = Num 1)"
    by (auto simp: normalizePost_def split: if_splits sum.splits prod.splits)
  show ?thesis
    unfolding missing_defaults_def
    using nul dts by (simp add: rest missing_def js_or_def opt_prop_def)
qed

lemma normalizePosts_tolerable:
  "list_all tolerable raw \<Longrightarrow> \<exists>ps. normalizePosts d raw = Inr ps \<and> list_all2 missing_defaults raw ps"
proof (induction raw)
  case Nil
  then show ?case by simp
next
  case (Cons p raw)
  then obtain ps where ps: "normalizePosts d raw = Inr ps" "list_all2 missing_defaults raw ps"
    by auto
  from Cons.prems obtain kvs where "p = Obj kvs" "is_text (lookup kvs ''comment_sanitized'')"
    "is_text (lookup kvs ''comment'')" "valid_timestamp (lookup kvs ''timestamp'')"
    by (auto simp: tolerable_def split: jsval.splits)
  with normalizePost_total obtain r where r: "normalizePost d p = Inr r" by blast
  from normalizePost_defaults [OF r] r ps show ?case by simp
qed

lemma sample_normalize: "normalizePosts (\<lambda>s. s) sample_raw = Inr sample_normalized"
  by code_simp

lemma sample_tolerable: "list_all tolerable sample_raw"
  by code_simp

text \<open>
  C8, as amended. \<open>normalizePosts\<close> does not throw on tolerable raw posts, however many
  of their fields are missing; every output record has exactly the declared fields; and
  an output field whose raw fields are all missing is \<open>null\<close>, except that \<open>text\<close> is the
  empty string and \<open>is_op\<close>, \<open>has_media\<close> and \<open>deleted\<close> are \<open>false\<close>.
\<close>

theorem normalize_tolerates_missing:
  assumes "list_all tolerable raw"
  shows "\<exists>ps. normalizePosts d raw = Inr ps \<and> list_all2 missing_defaults raw ps
            \<and> (\<forall>r \<in> set ps. map fst (post_object r) = post_fields)"
  using normalizePosts_tolerable [OF assms] by (auto simp: post_object_fields)

theorem normalize_tolerates_missing_witness:
  "list_all tolerable sample_raw
   \<and> normalizePosts (\<lambda>s. s) sample_raw = Inr sample_normalized
   \<and> list_all2 missing_defaults sample_raw sample_normalized
   \<and> list_all (\<lambda>r. map fst (post_object r) = post_fields) sample_normalized"
proof -
  from normalize_tolerates_missing [OF sample_tolerable, of "\<lambda>s. s"]
  have "list_all2 missing_defaults sample_raw sample_normalized
        \<and> (\<forall>r \<in> set sample_normalized. map fst (post_object r) = post_fields)"
    by (simp add: sample_normalize)
  then show ?thesis
    using sample_tolerable sample_normalize by (simp add: list_all_iff)
qed

text \<open>
  C8 as stated says that a missing optional field maps to \<open>null\<close>. For the raw post with
  no field at all, \<open>text\<close> is the empty string and the three flags are \<open>false\<close>.
\<close>

theorem normalize_missing_not_null:
  "map_sum id (\<lambda>r. map (lookup (post_object r)) [''text'', ''is_op'', ''has_media'', ''deleted''])
     (normalizePost (\<lambda>s. s) (Obj []))
   = Inr [Str [], Bool False, Bool False, Bool False]"
  by code_simp

text \<open>
  C9. In every record that \<open>normalizePosts\<close> returns, \<open>timestamp\<close> is \<open>null\<close> exactly
  when \<open>date_iso\<close> is \<open>null\<close>: both are guarded by the truthiness of the raw timestamp,
  and a timestamp that does not parse makes the call throw instead of returning.
\<close>

theorem normalize_dates_joint:
  assumes "normalizePosts d raw = Inr ps"
  shows "\<forall>r \<in> set ps. (timestamp r = None) = (date_iso r = None)"
  using normalizePosts_all [OF assms] normalizePost_dates by blast

theorem normalize_dates_joint_witness:
  "normalizePosts (\<lambda>s. s) sample_raw = Inr sample_normalized
   \<and> map timestamp sample_normalized = [None, Some 1700000000]
   \<and> list_all (\<lambda>r. (timestamp r = None) = (date_iso r = None)) sample_normalized"
proof -
  from normalize_dates_joint [OF sample_normalize]
  have "list_all (\<lambda>r. (timestamp r = None) = (date_iso r = None)) sample_normalized"
    by (simp only: list_all_iff)
  moreover have "map timestamp sample_normalized = [None, Some 1700000000]"
    by (simp add: sample_normalized_def)
  ultimately show ?thesis using sample_normalize by simp
qed

section \<open>Properties of the scrape engine\<close>

subsection \<open>Resuming\<close>

text \<open>
  How one page request behaves when more answers are appended to the environment, and
  what that means for the loop: a request that was still pending is answered by the
  first appended answers; a request that had settled is not affected.
\<close>

lemma scrapeAllPosts_resume_point:
  "resume_point cfg st = (ps, page) \<Longrightarrow>
   scrapeAllPosts can_store src cfg st tr = scrapeLoop can_store src cfg st ps page 0 0 tr"
  by (auto simp: resume_point_def scrapeAllPosts_def split: prod.splits)

lemma fetchPage_Nil: "fetchPage src page [] = (Pending, [Request src page], [])"
  by (cases src) (simp_all add: fetchPage_def)

lemma fetchPage_Rejected:
  "fetchPage src page (Rejected # rest) = (Throw NetworkError, [Request src page], rest)"
  by (cases src) (simp_all add: fetchPage_def)

lemma fetchPage_Response:
  "fetchPage src page (Response r # rest) =
     (if status r = 429 then
        (case fetchPage src page rest of
           (c, evs, rest') \<Rightarrow> (c, Request src page # rate_limit_wait r # evs, rest'))
      else ((case src of Api \<Rightarrow> api_result r | Dom \<Rightarrow> dom_result r), [Request src page], rest))"
  by (cases src) (simp_all add: fetchPage_def)

lemma fetchPage_served:
  "list_all (serves_page src) tr \<Longrightarrow> fetchPage src page tr = (c, evs, rest) \<Longrightarrow>
   (c = Pending \<and> rest = []) \<or>
   (\<exists>v xs. c = Return v \<and> v \<noteq> Null \<and> spread v = Some xs \<and> list_all (serves_page src) rest)"
proof (induction tr arbitrary: c evs rest)
  case Nil
  then show ?case by (simp add: fetchPage_Nil)
next
  case (Cons out tr)
  from Cons.prems(1) obtain r where out: "out = Response r"
    by (cases out) (simp_all add: serves_page_def)
  show ?case
  proof (cases "status r = 429")
    case True
    obtain c' evs' rest' where f: "fetchPage src page tr = (c', evs', rest')"
      by (cases "fetchPage src page tr") auto
    with Cons.prems(2) out True have "c = c'" "rest = rest'"
      by (simp_all add: fetchPage_Response)
    with Cons.IH [OF _ f] Cons.prems(1) show ?thesis by simp
  next
    case False
    with Cons.prems out show ?thesis
      by (auto simp: fetchPage_Response serves_page_def split: completion.splits)
  qed
qed

lemma fetchPage_settled_append:
  "fetchPage src page tr = (c, evs, rest) \<Longrightarrow> c \<noteq> Pending \<Longrightarrow>
   fetchPage src page (tr @ tr2) = (c, evs, rest @ tr2)"
proof (induction tr arbitrary: c evs rest)
  case Nil
  then show ?case by (simp add: fetchPage_Nil)
next
  case (Cons out tr)
  show ?case
  proof (cases out)
    case Rejected
    with Cons.prems show ?thesis by (simp add: fetchPage_Rejected)
  next
    case (Response r)
    show ?thesis
    proof (cases "status r = 429")
      case True
      obtain c' evs' rest' where f: "fetchPage src page tr = (c', evs', rest')"
        by (cases "fetchPage src page tr") auto
      with Cons.prems Response True have "c' = c" "rest' = rest"
        "evs = Request src page # rate_limit_wait r # evs'"
        by (auto simp: fetchPage_Response)
      with Cons.IH [OF f] Cons.prems(2) Response True show ?thesis
        by (simp add: fetchPage_Response)
    next
      case False
      with Cons.prems Response show ?thesis by (auto simp: fetchPage_Response)
    qed
  qed
qed

lemma fetchPage_pending_append:
  "fetchPage src page tr = (Pending, evs, rest) \<Longrightarrow>
   \<exists>evs'. fetchPage src page (tr @ tr2) =
            (fst (fetchPage src page tr2), evs', snd (snd (fetchPage src page tr2)))"
proof (induction tr arbitrary: evs rest)
  case Nil
  then show ?case by (cases "fetchPage src page tr2") auto
next
  case (Cons out tr)
  show ?case
  proof (cases out)
    case Rejected
    with Cons.prems show ?thesis by (simp add: fetchPage_Rejected)
  next
    case (Response r)
    show ?thesis
    proof (cases "status r = 429")
      case True
      obtain c' evs' rest' where f: "fetchPage src page tr = (c', evs', rest')"
        by (cases "fetchPage src page tr") auto
      with Cons.prems Response True have "c' = Pending"
        by (auto simp: fetchPage_Response)
      with Cons.IH [of evs' rest'] f obtain evs2 where
        "fetchPage src page (tr @ tr2) =
           (fst (fetchPage src page tr2), evs2, snd (snd (fetchPage src page tr2)))"
        by auto
      with Response True show ?thesis by (simp add: fetchPage_Response)
    next
      case False
      with Cons.prems Response have "(case src of Api \<Rightarrow> api_result r | Dom \<Rightarrow> dom_result r) = Pending"
        by (auto simp: fetchPage_Response)
      then have False
        by (cases src) (auto simp: api_result_def dom_result_def Let_def
            split: if_splits option.splits sum.splits)
      then show ?thesis ..
    qed
  qed
qed

lemma scrapeLoop_pending_append:
  assumes "fetchPage src page tr1 = (Pending, evs, rest)" and "at \<le> maxRetries cfg"
  shows "outcome_of (scrapeLoop can_store src cfg st ps page ce at (tr1 @ tr2)) =
         outcome_of (scrapeLoop can_store src cfg st ps page ce at tr2)"
proof -
  obtain c2 evs2 rest2 where f2: "fetchPage src page tr2 = (c2, evs2, rest2)"
    by (cases "fetchPage src page tr2") auto
  with fetchPage_pending_append [OF assms(1), of tr2] obtain evs' where
    f12: "fetchPage src page (tr1 @ tr2) = (c2, evs', rest2)" by auto
  show ?thesis
    by (simp add: scrapeLoop.simps [of _ _ _ _ _ _ _ _ "tr1 @ tr2"]
        scrapeLoop.simps [of _ _ _ _ _ _ _ _ tr2] f2 f12 assms(2) outcome_of_def
        split: completion.splits option.splits prod.splits)
qed

lemma resume_point_saved:
  "can_store \<lparr> posts = ps, lastPage = page, config = query_of cfg \<rparr> \<Longrightarrow> 0 < page \<Longrightarrow>
   resume_point cfg (saveProgress can_store cfg ps page st) = (ps, page)"
  by (simp add: resume_point_def saveProgress_def loadProgress_def query_of_def)

lemma resume_loop:
  assumes cs: "\<And>r. can_store r"
  shows "list_all (serves_page src) tr1 \<Longrightarrow> 0 < page \<Longrightarrow>
         scrapeLoop can_store src cfg st ps page 0 0 tr1 = (Pending, st1, evs1, rest1) \<Longrightarrow>
         resume_point cfg st = (ps, page) \<Longrightarrow>
         outcome_of (scrapeAllPosts can_store src cfg st1 tr2) =
         outcome_of (scrapeLoop can_store src cfg st ps page 0 0 (tr1 @ tr2))"
proof (induction "length tr1" arbitrary: tr1 st ps page evs1 rest1 rule: less_induct)
  case less
  note pend = less.prems(3)
  have retries: "0 \<le> maxRetries cfg"
    using pend by (cases "0 \<le> maxRetries cfg") (simp_all add: scrapeLoop.simps [of _ _ _ _ _ _ _ _ tr1])
  obtain c evs rest where f: "fetchPage src page tr1 = (c, evs, rest)"
    by (cases "fetchPage src page tr1") auto
  from fetchPage_served [OF less.prems(1) f]
  consider "c = Pending" | v xs where "c = Return v" "v \<noteq> Null" "spread v = Some xs"
    "list_all (serves_page src) rest" by blast
  then show ?case
  proof cases
    case 1
    with pend f retries have "st1 = st"
      by (simp add: scrapeLoop.simps [of _ _ _ _ _ _ _ _ tr1])
    moreover from f 1 retries
    have "outcome_of (scrapeLoop can_store src cfg st ps page 0 0 (tr1 @ tr2)) =
          outcome_of (scrapeLoop can_store src cfg st ps page 0 0 tr2)"
      by (intro scrapeLoop_pending_append) simp_all
    ultimately show ?thesis
      by (simp add: scrapeAllPosts_resume_point [OF less.prems(4)])
  next
    case 2
    let ?st = "saveProgress can_store cfg (ps @ xs) (page + 1) st"
    obtain c' st' evs' rest' where inner:
      "scrapeLoop can_store src cfg ?st (ps @ xs) (page + 1) 0 0 rest = (c', st', evs', rest')"
      by (cases "scrapeLoop can_store src cfg ?st (ps @ xs) (page + 1) 0 0 rest") auto
    with pend f 2 retries have "c' = Pending" "st' = st1"
      by (simp_all add: scrapeLoop.simps [of _ _ _ _ _ _ _ _ tr1])
    with inner have inner': "scrapeLoop can_store src cfg ?st (ps @ xs) (page + 1) 0 0 rest
        = (Pending, st1, evs', rest')" by simp
    from f 2(1) have shorter: "length rest < length tr1"
      by (intro fetchPage_shorter [OF f]) simp
    from less.prems(2) have "resume_point cfg ?st = (ps @ xs, page + 1)"
      by (intro resume_point_saved) (simp_all add: cs)
    from less.hyps [OF shorter 2(4) _ inner' this] less.prems(2)
    have ih: "outcome_of (scrapeAllPosts can_store src cfg st1 tr2) =
          outcome_of (scrapeLoop can_store src cfg ?st (ps @ xs) (page + 1) 0 0 (rest @ tr2))"
      by simp
    from f 2(1) have "fetchPage src page (tr1 @ tr2) = (c, evs, rest @ tr2)"
      by (intro fetchPage_settled_append) simp_all
    with 2 retries have "outcome_of (scrapeLoop can_store src cfg st ps page 0 0 (tr1 @ tr2)) =
          outcome_of (scrapeLoop can_store src cfg ?st (ps @ xs) (page + 1) 0 0 (rest @ tr2))"
      by (simp add: scrapeLoop.simps [of _ _ _ _ _ _ _ _ "tr1 @ tr2"] outcome_of_def
          split: prod.splits)
    with ih show ?thesis by simp
  qed
qed

text \<open>
  C6. The run is seeded from the stored record (its posts, and its page when that is
  positive) only when the record's query equals the current one in \<open>username\<close>,
  \<open>tripcode\<close> and \<open>boards\<close>; when the item is absent or unreadable, or any of the three
  differs, the run enters its loop with no posts at \<open>startPage\<close>.
\<close>

theorem resume_only_on_match:
  "(st (storageKey cfg) = Some (Saved saved)
      \<and> username (config saved) = username cfg
      \<and> tripcode (config saved) = tripcode cfg
      \<and> boards (config saved) = boards cfg
    \<longrightarrow> scrapeAllPosts can_store src cfg st tr =
          scrapeLoop can_store src cfg st (posts saved)
            (if lastPage saved > 0 then lastPage saved else startPage cfg) 0 0 tr)
   \<and> (st (storageKey cfg) = None \<or> st (storageKey cfg) = Some Unreadable
        \<or> (\<exists>other. st (storageKey cfg) = Some (Saved other)
              \<and> (username (config other) \<noteq> username cfg
                   \<or> tripcode (config other) \<noteq> tripcode cfg
                   \<or> boards (config other) \<noteq> boards cfg))
      \<longrightarrow> scrapeAllPosts can_store src cfg st tr =
            scrapeLoop can_store src cfg st [] (startPage cfg) 0 0 tr)"
  by (auto simp: scrapeAllPosts_def loadProgress_def)

theorem resume_only_on_match_witness:
  "sample_store (storageKey sample_config) = Some (Saved sample_saved)
   \<and> config sample_saved = query_of sample_config
   \<and> scrapeAllPosts (\<lambda>r. True) Api sample_config sample_store [api_end] =
       scrapeLoop (\<lambda>r. True) Api sample_config sample_store sample_raw 2 0 0 [api_end]
   \<and> boards (config sample_saved) \<noteq> boards (sample_config\<lparr>boards := ''pol''\<rparr>)
   \<and> scrapeAllPosts (\<lambda>r. True) Api (sample_config\<lparr>boards := ''pol''\<rparr>) sample_store [api_end] =
       scrapeLoop (\<lambda>r. True) Api (sample_config\<lparr>boards := ''pol''\<rparr>) sample_store [] 1 0 0 [api_end]"
proof -
  have key: "storageKey (sample_config\<lparr>boards := ''pol''\<rparr>) = storageKey sample_config"
    by simp
  have held: "sample_store (storageKey sample_config) = Some (Saved sample_saved)"
    by (simp add: sample_store_def)
  have same: "config sample_saved = query_of sample_config"
    by (simp add: sample_saved_def)
  have differs: "boards (config sample_saved) \<noteq> boards (sample_config\<lparr>boards := ''pol''\<rparr>)"
    by (simp add: sample_saved_def sample_config_def query_of_def CONFIG_def)
  from resume_only_on_match
    [of sample_store sample_config sample_saved "\<lambda>r. True" Api "[api_end]"] held same
  have "scrapeAllPosts (\<lambda>r. True) Api sample_config sample_store [api_end] =
       scrapeLoop (\<lambda>r. True) Api sample_config sample_store sample_raw 2 0 0 [api_end]"
    by (simp add: query_of_def sample_saved_def)
  moreover
  from resume_only_on_match
    [of sample_store "sample_config\<lparr>boards := ''pol''\<rparr>" sample_saved "\<lambda>r. True" Api "[api_end]"]
    held differs key
  have "scrapeAllPosts (\<lambda>r. True) Api (sample_config\<lparr>boards := ''pol''\<rparr>) sample_store [api_end] =
       scrapeLoop (\<lambda>r. True) Api (sample_config\<lparr>boards := ''pol''\<rparr>) sample_store [] 1 0 0 [api_end]"
    by (simp add: sample_config_def CONFIG_def)
  ultimately show ?thesis using held same differs by blast
qed

text \<open>
  C5. A first run over a page source that serves pages is cut while it waits for a page
  (\<open>Pending\<close>), leaving the store \<open>st1\<close> with its last checkpoint. Whatever the source
  answers from then on (\<open>tr2\<close>), the run resumed from \<open>st1\<close> ends exactly as one
  uninterrupted run over all the answers: the same return and posts, the same store, the
  same answers left. Checkpoint writes succeed and \<open>startPage\<close> is at least 1.
\<close>

theorem resume_equivalent:
  assumes "list_all (serves_page src) tr1" and "1 \<le> startPage cfg" and "\<forall>r. can_store r"
    and "scrapeAllPosts can_store src cfg st tr1 = (Pending, st1, evs1, rest1)"
  shows "outcome_of (scrapeAllPosts can_store src cfg st1 tr2) =
         outcome_of (scrapeAllPosts can_store src cfg st (tr1 @ tr2))"
proof -
  obtain ps page where rp: "resume_point cfg st = (ps, page)"
    by (cases "resume_point cfg st") auto
  with assms(2) have page: "0 < page"
    by (auto simp: resume_point_def split: prod.splits if_splits)
  from assms(4) have "scrapeLoop can_store src cfg st ps page 0 0 tr1 = (Pending, st1, evs1, rest1)"
    by (simp add: scrapeAllPosts_resume_point [OF rp])
  from resume_loop [OF _ assms(1) page this rp] assms(3) show ?thesis
    by (simp add: scrapeAllPosts_resume_point [OF rp])
qed

theorem resume_equivalent_witness:
  "list_all (serves_page Api) [api_page sample_raw]
   \<and> 1 \<le> startPage sample_config
   \<and> fst (scrapeAllPosts (\<lambda>r. True) Api sample_config Map.empty [api_page sample_raw]) = Pending
   \<and> fst (snd (scrapeAllPosts (\<lambda>r. True) Api sample_config Map.empty [api_page sample_raw]))
         (storageKey sample_config) = Some (Saved sample_saved)
   \<and> outcome_of (scrapeAllPosts (\<lambda>r. True) Api sample_config
                   (fst (snd (scrapeAllPosts (\<lambda>r. True) Api sample_config Map.empty
                                [api_page sample_raw])))
                   [api_page [Obj [(''num'', Str ''3'')]], api_end])
     = outcome_of (scrapeAllPosts (\<lambda>r. True) Api sample_config Map.empty
                     ([api_page sample_raw] @ [api_page [Obj [(''num'', Str ''3'')]], api_end]))
   \<and> fst (scrapeAllPosts (\<lambda>r. True) Api sample_config Map.empty
            ([api_page sample_raw] @ [api_page [Obj [(''num'', Str ''3'')]], api_end]))
     = Return (Completed, sample_raw @ [Obj [(''num'', Str ''3'')]])"
proof -
  let ?first = "scrapeAllPosts (\<lambda>r. True) Api sample_config Map.empty [api_page sample_raw]"
  have served: "list_all (serves_page Api) [api_page sample_raw]"
    by code_simp
  have start: "1 \<le> startPage sample_config"
    by (simp add: sample_config_def CONFIG_def)
  have pending: "fst ?first = Pending"
    by code_simp
  then have first: "?first = (Pending, fst (snd ?first), fst (snd (snd ?first)), snd (snd (snd ?first)))"
    by (metis prod.collapse)
  have checkpoint: "fst (snd ?first) (storageKey sample_config) = Some (Saved sample_saved)"
    by code_simp
  have whole: "fst (scrapeAllPosts (\<lambda>r. True) Api sample_config Map.empty
            ([api_page sample_raw] @ [api_page [Obj [(''num'', Str ''3'')]], api_end]))
     = Return (Completed, sample_raw @ [Obj [(''num'', Str ''3'')]])"
    by code_simp
  from resume_equivalent [OF served start _ first, of "[api_page [Obj [(''num'', Str ''3'')]], api_end]"]
  have "outcome_of (scrapeAllPosts (\<lambda>r. True) Api sample_config (fst (snd ?first))
                   [api_page [Obj [(''num'', Str ''3'')]], api_end])
     = outcome_of (scrapeAllPosts (\<lambda>r. True) Api sample_config Map.empty
                     ([api_page sample_raw] @ [api_page [Obj [(''num'', Str ''3'')]], api_end]))"
    by simp
  with served start pending checkpoint whole show ?thesis by blast
qed

subsection \<open>Failing fetches\<close>

text \<open>
  With at most three retries per page the requests stop before a fifth consecutive
  error can happen: the count is zero whenever a page is first requested and grows with
  \<open>attempt\<close>. A rate-limit answer changes neither counter, and a missing or empty
  \<open>Retry-After\<close> waits 30 seconds.
\<close>

lemma breaker_unreachable:
  "maxRetries cfg \<le> 3 \<Longrightarrow> ce \<le> at \<Longrightarrow>
   fst (scrapeLoop can_store src cfg st ps page ce at tr) \<noteq> Return (CircuitBroken, qs)"
proof (induction can_store src cfg st ps page ce at tr rule: scrapeLoop.induct)
  case (1 can_store src cfg st ps page ce at tr)
  show ?case
  proof (cases "at \<le> maxRetries cfg")
    case False
    then show ?thesis by (simp add: scrapeLoop.simps [of _ _ _ _ _ _ _ _ tr])
  next
    case True
    obtain c evs rest where f: "fetchPage src page tr = (c, evs, rest)"
      by (cases "fetchPage src page tr") auto
    show ?thesis
    proof (cases c)
      case Pending
      with True f show ?thesis by (simp add: scrapeLoop.simps [of _ _ _ _ _ _ _ _ tr])
    next
      case (Throw err)
      from True "1.prems" have small: "\<not> 5 \<le> ce + 1" by simp
      from "1.IH"(2) [OF True f [symmetric] Throw refl small] "1.prems"
      have "fst (scrapeLoop can_store src cfg st ps page (ce + 1) (at + 1) rest)
            \<noteq> Return (CircuitBroken, qs)" by simp
      with True f Throw small show ?thesis
        by (auto simp: scrapeLoop.simps [of _ _ _ _ _ _ _ _ tr] split: prod.splits)
    next
      case (Return v)
      show ?thesis
      proof (cases "v = Null")
        case True
        with \<open>at \<le> maxRetries cfg\<close> f Return show ?thesis
          by (simp add: scrapeLoop.simps [of _ _ _ _ _ _ _ _ tr])
      next
        case False
        show ?thesis
        proof (cases "spread v")
          case None
          with \<open>at \<le> maxRetries cfg\<close> f Return False show ?thesis
            by (simp add: scrapeLoop.simps [of _ _ _ _ _ _ _ _ tr])
        next
          case (Some new)
          from "1.IH"(1) [OF \<open>at \<le> maxRetries cfg\<close> f [symmetric] Return refl False Some] "1.prems"
          have "fst (scrapeLoop can_store src cfg
                  (saveProgress can_store cfg (ps @ new) (page + 1) st) (ps @ new) (page + 1) 0 0 rest)
                \<noteq> Return (CircuitBroken, qs)" by simp
          with \<open>at \<le> maxRetries cfg\<close> f Return False Some show ?thesis
            by (auto simp: scrapeLoop.simps [of _ _ _ _ _ _ _ _ tr] split: prod.splits)
        qed
      qed
    qed
  qed
qed

lemma rate_limited_transparent:
  assumes "status r = 429" and "at \<le> maxRetries cfg"
  shows "outcome_of (scrapeLoop can_store src cfg st ps page ce at (Response r # tr)) =
         outcome_of (scrapeLoop can_store src cfg st ps page ce at tr)"
proof -
  obtain c evs rest where f: "fetchPage src page tr = (c, evs, rest)"
    by (cases "fetchPage src page tr") auto
  with assms(1) have "fetchPage src page (Response r # tr) =
      (c, Request src page # rate_limit_wait r # evs, rest)"
    by (simp add: fetchPage_Response)
  with f assms(2) show ?thesis
    by (simp add: scrapeLoop.simps [of _ _ _ _ _ _ _ _ "Response r # tr"]
        scrapeLoop.simps [of _ _ _ _ _ _ _ _ tr] outcome_of_def
        split: completion.splits option.splits prod.splits)
qed

lemma rate_limit_wait_default:
  "retry_after r = None \<or> retry_after r = Some [] \<Longrightarrow> rate_limit_wait r = Sleep (Some 30000)"
  by (auto simp: rate_limit_wait_def retryAfter_def parseInt_def is_ws_def is_digit_def
      digits_value_def)

text \<open>
  How a run that returns leaves the store: the end-of-results exit has removed the
  item; the circuit-breaker exit has written the returned posts (when the write fits).
  Five failed requests of one page do reach the circuit breaker when at least four
  retries are allowed.
\<close>

lemma ending_store:
  "scrapeLoop can_store src cfg st ps page ce at tr = (Return (how, qs), st', evs', rest') \<Longrightarrow>
   (how = Completed \<longrightarrow> st' (storageKey cfg) = None) \<and>
   (how = CircuitBroken \<longrightarrow> (\<forall>r. can_store r) \<longrightarrow>
      (\<exists>p. st' (storageKey cfg) = Some (Saved \<lparr> posts = qs, lastPage = p, config = query_of cfg \<rparr>)))"
proof (induction can_store src cfg st ps page ce at tr arbitrary: st' evs' rest'
    rule: scrapeLoop.induct)
  case (1 can_store src cfg st ps page ce at tr)
  note run = "1.prems"
  show ?case
  proof (cases "at \<le> maxRetries cfg")
    case False
    with run show ?thesis
      by (auto simp: scrapeLoop.simps [of _ _ _ _ _ _ _ _ tr] clearProgress_def)
  next
    case True
    obtain c evs rest where f: "fetchPage src page tr = (c, evs, rest)"
      by (cases "fetchPage src page tr") auto
    show ?thesis
    proof (cases c)
      case Pending
      with True f run show ?thesis by (simp add: scrapeLoop.simps [of _ _ _ _ _ _ _ _ tr])
    next
      case (Throw err)
      show ?thesis
      proof (cases "5 \<le> ce + 1")
        case broken: True
        with True f Throw run show ?thesis
          by (auto simp: scrapeLoop.simps [of _ _ _ _ _ _ _ _ tr] saveProgress_def)
      next
        case small: False
        obtain c2 st2 evs2 rest2 where inner:
          "scrapeLoop can_store src cfg st ps page (ce + 1) (at + 1) rest = (c2, st2, evs2, rest2)"
          by (cases "scrapeLoop can_store src cfg st ps page (ce + 1) (at + 1) rest") auto
        with True f Throw small run have "c2 = Return (how, qs)" "st2 = st'"
          by (simp_all add: scrapeLoop.simps [of _ _ _ _ _ _ _ _ tr])
        with inner "1.IH"(2) [OF True f [symmetric] Throw refl small] show ?thesis by simp
      qed
    next
      case (Return v)
      show ?thesis
      proof (cases "v = Null")
        case True
        with \<open>at \<le> maxRetries cfg\<close> f Return run show ?thesis
          by (auto simp: scrapeLoop.simps [of _ _ _ _ _ _ _ _ tr] clearProgress_def)
      next
        case False
        show ?thesis
        proof (cases "spread v")
          case None
          with \<open>at \<le> maxRetries cfg\<close> f Return False run show ?thesis
            by (simp add: scrapeLoop.simps [of _ _ _ _ _ _ _ _ tr])
        next
          case (Some new)
          let ?st = "saveProgress can_store cfg (ps @ new) (page + 1) st"
          obtain c2 st2 evs2 rest2 where inner:
            "scrapeLoop can_store src cfg ?st (ps @ new) (page + 1) 0 0 rest = (c2, st2, evs2, rest2)"
            by (cases "scrapeLoop can_store src cfg ?st (ps @ new) (page + 1) 0 0 rest") auto
          with \<open>at \<le> maxRetries cfg\<close> f Return False Some run
          have "c2 = Return (how, qs)" "st2 = st'"
            by (simp_all add: scrapeLoop.simps [of _ _ _ _ _ _ _ _ tr])
          with inner "1.IH"(1) [OF \<open>at \<le> maxRetries cfg\<close> f [symmetric] Return refl False Some]
          show ?thesis by simp
        qed
      qed
    qed
  qed
qed

lemma five_rejections_trip_breaker:
  assumes "4 \<le> maxRetries cfg"
  shows "scrapeLoop can_store src cfg st ps page 0 0 (replicate 5 Rejected @ tr) =
         (Return (CircuitBroken, ps), saveProgress can_store cfg ps page st,
          [Request src page, Sleep (Some (retryBackoffMs cfg * 1)),
           Request src page, Sleep (Some (retryBackoffMs cfg * 2)),
           Request src page, Sleep (Some (retryBackoffMs cfg * 3)),
           Request src page, Sleep (Some (retryBackoffMs cfg * 4)),
           Request src page],
          tr)"
proof -
  have five: "replicate 5 Rejected = [Rejected, Rejected, Rejected, Rejected, Rejected]"
    by (simp add: numeral_eq_Suc)
  from assms show ?thesis
    unfolding five
    by (simp add: scrapeLoop.simps [of _ _ _ _ _ _ _ _ "_ # _"] fetchPage_Rejected)
qed

text \<open>
  With the default three retries or fewer, a page whose every try is rejected ends the
  run by the end-of-results exit, from any store and with any posts accumulated.
\<close>

lemma exhausted_retries_complete:
  assumes "0 \<le> maxRetries cfg" and "maxRetries cfg \<le> 3"
  shows "outcome_of (scrapeLoop can_store src cfg st ps page 0 0
                       (replicate (nat (maxRetries cfg) + 1) Rejected @ tr)) =
         (Return (Completed, ps), clearProgress cfg st, tr)"
proof -
  from assms consider "maxRetries cfg = 0" | "maxRetries cfg = 1" | "maxRetries cfg = 2"
    | "maxRetries cfg = 3" by linarith
  then show ?thesis
    by cases
      (simp_all add: scrapeLoop.simps [of _ _ _ _ _ _ _ _ "_ # _"] scrapeLoop.simps [of _ _ _ _ _ _ _ 4]
        scrapeLoop.simps [of _ _ _ _ _ _ _ 3 tr] scrapeLoop.simps [of _ _ _ _ _ _ _ 2 tr]
        scrapeLoop.simps [of _ _ _ _ _ _ _ 1 tr]
        fetchPage_Rejected outcome_of_def numeral_eq_Suc)
qed

text \<open>
  C1. The claim: the stored progress is deleted only when the page source signals the end
  of the results, and survives every other way a run ends. The code, at the default
  settings: after the first page the checkpoint is stored; when the second page then
  fails four times in a row (the first try and three retries), \<open>pagePosts\<close> is still
  \<open>null\<close>, the run takes the end-of-results exit, and the checkpoint is deleted.
\<close>

theorem retries_exhausted_clears_progress:
  "observe sample_config
     (scrapeAllPosts (\<lambda>r. True) Api sample_config Map.empty [api_page sample_raw])
   = (Pending, Some (Saved sample_saved),
      [Request Api 1, Sleep (Some 13000), Request Api 2], [])
   \<and> observe sample_config
       (scrapeAllPosts (\<lambda>r. True) Api sample_config Map.empty
          (api_page sample_raw # replicate 4 (http_error 500)))
     = (Return (Completed, sample_raw), None,
        [Request Api 1, Sleep (Some 13000), Request Api 2, Sleep (Some 5000), Request Api 2,
         Sleep (Some 10000), Request Api 2, Sleep (Some 15000), Request Api 2], [])"
  by code_simp





text \<open>
  C3. The claim: a rate-limit answer whose \<open>Retry-After\<close> cannot be parsed waits exactly
  30 seconds. The code, for a \<open>Retry-After\<close> that is a date: \<open>parseInt\<close> gives \<open>NaN\<close>
  and \<open>sleep\<close> is called with \<open>NaN\<close> (\<open>Sleep None\<close>), in both page sources; the request
  is then issued again.
\<close>

theorem unparseable_retry_after_is_nan:
  "fetchApiPage 1 [rate_limited (Some ''Wed, 21 Oct 2015 07:28:00 GMT''), api_end]
   = (Return Null, [Request Api 1, Sleep None, Request Api 1], [])
   \<and> fetchDomPage 1 [rate_limited (Some ''Wed, 21 Oct 2015 07:28:00 GMT''), dom_page []]
     = (Return Null, [Request Dom 1, Sleep None, Request Dom 1], [])"
  by code_simp

text \<open>
  C4. The claim: when the API run fails by persistent transport errors or by the circuit
  breaker, \<open>run\<close> restarts the scrape once with the markup source. The code: the retry
  loop catches every transport error, \<open>scrapeAllPosts\<close> returns normally, and \<open>run\<close>
  reports that no posts were found without a single request to the markup source,
  both when the retries are exhausted (default settings) and when the circuit breaker
  trips (four retries allowed).
\<close>

theorem api_failure_without_fallback:
  "observe sample_config
     (run (\<lambda>r. True) (\<lambda>s. s) sample_config Map.empty
        (replicate 4 (http_error 403) @ [dom_page sample_raw]))
   = (Return NoPosts, None,
      [Request Api 1, Sleep (Some 5000), Request Api 1, Sleep (Some 10000), Request Api 1,
       Sleep (Some 15000), Request Api 1],
      [dom_page sample_raw])
   \<and> observe sample_config
       (run (\<lambda>r. True) (\<lambda>s. s) (sample_config\<lparr>maxRetries := 4\<rparr>) Map.empty
          (replicate 5 (http_error 403) @ [dom_page sample_raw]))
     = (Return NoPosts,
        Some (Saved \<lparr> posts = [], lastPage = 1, config = query_of sample_config \<rparr>),
        [Request Api 1, Sleep (Some 5000), Request Api 1, Sleep (Some 10000), Request Api 1,
         Sleep (Some 15000), Request Api 1, Sleep (Some 20000), Request Api 1],
        [dom_page sample_raw])"
  by code_simp


end
